theory Spec2Isabelle
  imports Main
begin

section \<open>Strings\<close>

text \<open>
  Python strings are modelled as lists of characters, one character for one code point,
  which covers the code points below 256. The three string operations the result builder
  uses are \<open>str.startswith\<close>, slicing from an index (\<open>drop\<close>) and \<open>str.strip\<close> without
  arguments, which removes leading and trailing whitespace. The whitespace characters of
  Python below code point 256 are tab, line feed, vertical tab, form feed, carriage
  return, the four separators 28 to 31, space, next line (133) and no-break space (160).
\<close>

definition startswith :: "string \<Rightarrow> string \<Rightarrow> bool" where
  "startswith s p = (take (length p) s = p)"

definition isspace :: "char \<Rightarrow> bool" where
  "isspace c = ((of_char c :: nat) \<in> set [9, 10, 11, 12, 13, 28, 29, 30, 31, 32, 133, 160])"

definition lstrip :: "string \<Rightarrow> string" where
  "lstrip s = dropWhile isspace s"

definition rstrip :: "string \<Rightarrow> string" where
  "rstrip s = rev (dropWhile isspace (rev s))"

definition strip :: "string \<Rightarrow> string" where
  "strip s = rstrip (lstrip s)"

text \<open>
  Modelled from the spec: \<open>html_escape\<close> of \<open>robot.utils\<close> is imported by the result
  builder but is not part of the sources at hand. The spec only says that plain text is
  HTML-escaped; the model replaces the three markup characters by their entities. The
  functions below that call it take the escaping function as a parameter, so that
  nothing proved about them depends on this model except where it is named.
\<close>

fun escape_char :: "char \<Rightarrow> string" where
  "escape_char c =
     (if c = CHR ''&'' then ''&amp;''
      else if c = CHR ''<'' then ''&lt;''
      else if c = CHR ''>'' then ''&gt;''
      else [c])"

definition html_escape :: "string \<Rightarrow> string" where
  "html_escape s = concat (map escape_char s)"

section \<open>The message-flattening rule\<close>

text \<open>
  \<open>ExecutionResultBuilder._create_flattened_message\<close>. The original text of a status
  element is \<open>None\<close> when the element has no text. Python's \<open>not original\<close> holds for
  \<open>None\<close> and for the empty string.
\<close>

definition create_flattened_message :: "(string \<Rightarrow> string) \<Rightarrow> string option \<Rightarrow> string" where
  "create_flattened_message escape original =
     (let start =
        (case original of
           None \<Rightarrow> ''''
         | Some s \<Rightarrow>
             if s = '''' then ''''
             else if startswith s ''*HTML*'' then strip (drop 6 s) @ ''<hr>''
             else escape s @ ''<hr>'')
      in ''*HTML* '' @ start @ ''<i>Content flattened.</i>'')"

section \<open>Elements and events\<close>

text \<open>
  An element of the parser as the filters see it: its tag, its attributes and its text.
  \<open>elem.get(key)\<close> looks an attribute up. \<open>ET.iterparse\<close> is asked for the events
  \<open>start\<close> and \<open>end\<close> only, so an event is a phase with an element. The element is what
  it holds when the event is handled: a filter that changes the text of an element
  hands the changed element on.
\<close>

record element =
  tag :: string
  attrib :: "(string \<times> string) list"
  etext :: "string option"

definition get :: "element \<Rightarrow> string \<Rightarrow> string option" where
  "get elem key = map_of (attrib elem) key"

datatype phase = Start | End

type_synonym event = "phase \<times> element"

text \<open>
  The filters are generators. For each event they take from the stream they either
  yield an event, or call \<open>elem.clear()\<close>, or do neither; the list of these actions, one
  per event, is the result of a filter, and the events it yields are what its consumer
  sees.
\<close>

datatype action = Yield event | Clear element | Skip

fun yielded :: "action list \<Rightarrow> event list" where
  "yielded [] = []"
| "yielded (Yield ev # acts) = ev # yielded acts"
| "yielded (Clear elem # acts) = yielded acts"
| "yielded (Skip # acts) = yielded acts"

section \<open>The omission filter\<close>

text \<open>
  \<open>ExecutionResultBuilder._omit_keywords\<close>. The flag \<open>omit\<close> of the loop body depends on
  the element only. The body first counts an omitted element that opens, then yields
  the event if the counter is zero and otherwise clears the element of an \<open>end\<close> event,
  and last discounts an omitted element that closes.
\<close>

definition omit :: "element \<Rightarrow> bool" where
  "omit elem = (tag elem \<in> set [''kw'', ''for'', ''if''] \<and> get elem ''type'' \<noteq> Some ''TEARDOWN'')"

definition omit_step :: "int \<Rightarrow> event \<Rightarrow> action \<times> int" where
  "omit_step omitted_kws ev =
     (let elem = snd ev;
          start = (fst ev = Start);
          omitted1 = (if omit elem \<and> start then omitted_kws + 1 else omitted_kws);
          act = (if omitted1 = 0 then Yield ev
                 else if \<not> start then Clear elem
                 else Skip);
          omitted2 = (if omit elem \<and> \<not> start then omitted1 - 1 else omitted1)
      in (act, omitted2))"

fun omit_loop :: "int \<Rightarrow> event list \<Rightarrow> action list" where
  "omit_loop omitted_kws [] = []"
| "omit_loop omitted_kws (ev # context) =
     (case omit_step omitted_kws ev of
        (act, omitted') \<Rightarrow> act # omit_loop omitted' context)"

definition omit_keywords :: "event list \<Rightarrow> action list" where
  "omit_keywords context = omit_loop 0 context"

text \<open>The counter after a stretch of the stream.\<close>

fun omit_count :: "int \<Rightarrow> event list \<Rightarrow> int" where
  "omit_count k [] = k"
| "omit_count k (ev # evs) = omit_count (snd (omit_step k ev)) evs"

section \<open>Documents\<close>

text \<open>
  A well-formed document is a tree of elements, and its event stream opens a node,
  runs through its children and closes it.
\<close>

datatype xml = Node element "xml list"

fun events :: "xml \<Rightarrow> event list" where
  "events (Node elem children) = (Start, elem) # concat (map events children) @ [(End, elem)]"

definition events_forest :: "xml list \<Rightarrow> event list" where
  "events_forest ts = concat (map events ts)"

text \<open>
  What the specification says of the omission filter, in two forms. On a stream: the
  number of omitted elements that are open at the event with index \<open>i\<close>, an element that
  opens at \<open>i\<close> counted and one that closes at \<open>i\<close> not yet discounted. On a document:
  the document without the subtrees of its omitted elements.
\<close>

definition open_omitted :: "event list \<Rightarrow> nat \<Rightarrow> int" where
  "open_omitted evs i =
     int (length (filter (\<lambda>ev. fst ev = Start \<and> omit (snd ev)) (take (Suc i) evs)))
     - int (length (filter (\<lambda>ev. fst ev = End \<and> omit (snd ev)) (take i evs)))"

fun strip_omitted :: "xml \<Rightarrow> xml list" where
  "strip_omitted (Node elem children) =
     (if omit elem then [] else [Node elem (concat (map strip_omitted children))])"

section \<open>The flattening filter\<close>

text \<open>
  \<open>ExecutionResultBuilder._flatten_keywords\<close>. The three matcher classes are not part of
  the sources at hand; the filter only uses what \<open>_get_matcher\<close> returns for each of
  them, the \<open>match\<close> method and the truth value of the matcher, so these six values are
  the fields of a record the filter takes as a parameter.
\<close>

record matchers =
  name_match :: "string \<Rightarrow> string option \<Rightarrow> bool"
  by_name :: bool
  type_match :: "string \<Rightarrow> bool"
  by_type :: bool
  tags_match :: "string list \<Rightarrow> bool"
  by_tags :: bool

record flatten_state =
  started :: int
  tags :: "string list"
  inside :: int

definition containers :: "string list" where
  "containers = [''kw'', ''for'', ''while'', ''iter'', ''if'', ''try'']"

text \<open>\<open>elem.get('name', '')\<close> and \<open>elem.get('owner') or elem.get('library')\<close>.\<close>

definition get_name :: "element \<Rightarrow> string" where
  "get_name elem = (case get elem ''name'' of None \<Rightarrow> '''' | Some v \<Rightarrow> v)"

definition owner_or_library :: "element \<Rightarrow> string option" where
  "owner_or_library elem =
     (case get elem ''owner'' of
        None \<Rightarrow> get elem ''library''
      | Some v \<Rightarrow> if v = '''' then get elem ''library'' else Some v)"

text \<open>
  The loop body in three parts, in the order of the source: the branch on the event
  (\<open>flatten_update\<close>, which may change the counters, the accumulated tags and the text of
  a status element), the decision to yield or clear, and the final decrement.
\<close>

definition flatten_update ::
  "(string \<Rightarrow> string) \<Rightarrow> matchers \<Rightarrow> flatten_state \<Rightarrow> event \<Rightarrow> flatten_state \<times> element" where
  "flatten_update escape m s ev =
     (let elem = snd ev in
      if fst ev = Start then
        (if tag elem \<in> set containers then
           (let s1 = s\<lparr>inside := inside s + 1\<rparr>;
                s2 = (if started s1 \<ge> 0 then s1\<lparr>started := started s1 + 1\<rparr>
                      else if by_name m \<and> name_match m (get_name elem) (owner_or_library elem)
                        then s1\<lparr>started := 0\<rparr>
                      else if by_type m \<and> type_match m (tag elem) then s1\<lparr>started := 0\<rparr>
                      else s1)
            in (s2\<lparr>tags := []\<rparr>, elem))
         else (s, elem))
      else
        (if tag elem \<in> set containers then (s\<lparr>inside := inside s - 1\<rparr>, elem)
         else if by_tags m \<and> inside s \<noteq> 0 \<and> started s < 0 \<and> tag elem = ''tag'' then
           (let s1 = s\<lparr>tags := tags s @ [case etext elem of None \<Rightarrow> '''' | Some t \<Rightarrow> t]\<rparr>
            in (if tags_match m (tags s1) then s1\<lparr>started := 0\<rparr> else s1, elem))
         else if started s = 0 \<and> tag elem = ''status'' then
           (s, elem\<lparr>etext := Some (create_flattened_message escape (etext elem))\<rparr>)
         else (s, elem)))"

definition flatten_step ::
  "(string \<Rightarrow> string) \<Rightarrow> matchers \<Rightarrow> flatten_state \<Rightarrow> event \<Rightarrow> action \<times> flatten_state" where
  "flatten_step escape m s ev =
     (case flatten_update escape m s ev of
        (s1, elem) \<Rightarrow>
          (if started s1 \<le> 0 \<or> tag elem = ''msg'' then Yield (fst ev, elem) else Clear elem,
           if started s1 \<ge> 0 \<and> fst ev = End \<and> tag elem \<in> set containers
           then s1\<lparr>started := started s1 - 1\<rparr> else s1))"

fun flatten_loop ::
  "(string \<Rightarrow> string) \<Rightarrow> matchers \<Rightarrow> flatten_state \<Rightarrow> event list \<Rightarrow> action list" where
  "flatten_loop escape m s [] = []"
| "flatten_loop escape m s (ev # context) =
     (case flatten_step escape m s ev of
        (act, s') \<Rightarrow> act # flatten_loop escape m s' context)"

definition flatten_init :: flatten_state where
  "flatten_init = \<lparr>started = - 1, tags = [], inside = 0\<rparr>"

definition flatten_keywords ::
  "(string \<Rightarrow> string) \<Rightarrow> (string list \<Rightarrow> matchers) \<Rightarrow> event list \<Rightarrow> string list \<Rightarrow> action list" where
  "flatten_keywords escape get_matchers context flattened =
     flatten_loop escape (get_matchers flattened) flatten_init context"

text \<open>The state of the filter after a prefix of the stream.\<close>

fun flatten_state_after ::
  "(string \<Rightarrow> string) \<Rightarrow> matchers \<Rightarrow> flatten_state \<Rightarrow> event list \<Rightarrow> flatten_state" where
  "flatten_state_after escape m s [] = s"
| "flatten_state_after escape m s (ev # context) =
     flatten_state_after escape m (snd (flatten_step escape m s ev)) context"

text \<open>
  What the specification says remains of a flattened container: of a container below
  the matched one only its message nodes, and of every other node at the matched
  container's own level the node itself, a status node with its text rewritten.
\<close>

fun msg_events :: "xml \<Rightarrow> event list" where
  "msg_events (Node elem children) =
     (if tag elem = ''msg''
      then (Start, elem) # concat (map msg_events children) @ [(End, elem)]
      else concat (map msg_events children))"

definition rewrite_status :: "(string \<Rightarrow> string) \<Rightarrow> element \<Rightarrow> element" where
  "rewrite_status escape elem =
     (if tag elem = ''status''
      then elem\<lparr>etext := Some (create_flattened_message escape (etext elem))\<rparr>
      else elem)"

fun flat_events :: "(string \<Rightarrow> string) \<Rightarrow> xml \<Rightarrow> event list" where
  "flat_events escape (Node elem children) =
     (if tag elem \<in> set containers then msg_events (Node elem children)
      else (Start, elem) # concat (map (flat_events escape) children)
           @ [(End, rewrite_status escape elem)])"

definition triggers :: "matchers \<Rightarrow> element \<Rightarrow> bool" where
  "triggers m elem =
     (by_name m \<and> name_match m (get_name elem) (owner_or_library elem)
      \<or> by_type m \<and> type_match m (tag elem))"

definition open_containers :: "event list \<Rightarrow> int" where
  "open_containers evs =
     int (length (filter (\<lambda>ev. fst ev = Start \<and> tag (snd ev) \<in> set containers) evs))
     - int (length (filter (\<lambda>ev. fst ev = End \<and> tag (snd ev) \<in> set containers) evs))"

text \<open>
  What the statements on nested containers say of a document: the text of a \<open>tag\<close>
  element as the filter reads it (\<open>elem.text or ''\<close>), the texts of the \<open>tag\<close> elements of
  a subtree, a subtree none of whose containers matches by name or type, a subtree with
  a container in it, and texts of which no list matches the tag matcher.
\<close>

definition tag_text :: "element \<Rightarrow> string" where
  "tag_text elem = (case etext elem of None \<Rightarrow> '''' | Some t \<Rightarrow> t)"

fun tag_texts :: "xml \<Rightarrow> string list" where
  "tag_texts (Node elem children) =
     concat (map tag_texts children) @ (if tag elem = ''tag'' then [tag_text elem] else [])"

fun no_trigger :: "matchers \<Rightarrow> xml \<Rightarrow> bool" where
  "no_trigger m (Node elem children) =
     (\<not> (tag elem \<in> set containers \<and> triggers m elem) \<and> list_all (no_trigger m) children)"

fun has_container :: "xml \<Rightarrow> bool" where
  "has_container (Node elem children) =
     (tag elem \<in> set containers \<or> list_ex has_container children)"

definition no_tag_match :: "matchers \<Rightarrow> string list \<Rightarrow> bool" where
  "no_tag_match m texts =
     (by_tags m \<longrightarrow> (\<forall>acc. acc \<noteq> [] \<and> set acc \<subseteq> set texts \<longrightarrow> \<not> tags_match m acc))"

section \<open>Example documents and matchers\<close>

definition teardown_kw :: element where
  "teardown_kw = \<lparr>tag = ''kw'', attrib = [(''name'', ''Cleanup''), (''type'', ''TEARDOWN'')], etext = None\<rparr>"

definition log_kw :: element where
  "log_kw = \<lparr>tag = ''kw'', attrib = [(''name'', ''Log'')], etext = None\<rparr>"

definition test_elem :: element where
  "test_elem = \<lparr>tag = ''test'', attrib = [(''name'', ''T'')], etext = None\<rparr>"

definition while_elem :: element where
  "while_elem = \<lparr>tag = ''while'', attrib = [], etext = None\<rparr>"

definition kw_elem :: "string \<Rightarrow> element" where
  "kw_elem n = \<lparr>tag = ''kw'', attrib = [(''name'', n)], etext = None\<rparr>"

definition for_elem :: element where
  "for_elem = \<lparr>tag = ''for'', attrib = [(''flavor'', ''IN'')], etext = None\<rparr>"

definition status_elem :: "string \<Rightarrow> element" where
  "status_elem t = \<lparr>tag = ''status'', attrib = [(''status'', ''PASS'')], etext = Some t\<rparr>"

definition msg_elem :: "string \<Rightarrow> element" where
  "msg_elem t = \<lparr>tag = ''msg'', attrib = [(''level'', ''INFO'')], etext = Some t\<rparr>"

definition tag_elem :: "string \<Rightarrow> element" where
  "tag_elem t = \<lparr>tag = ''tag'', attrib = [], etext = Some t\<rparr>"

text \<open>Matchers that flatten every \<open>for\<close> loop, and matchers that flatten on the tag \<open>smoke\<close>.\<close>

definition for_matchers :: matchers where
  "for_matchers =
     \<lparr>name_match = (\<lambda>n ow. False), by_name = False,
      type_match = (\<lambda>t. t = ''for''), by_type = True,
      tags_match = (\<lambda>ts. False), by_tags = False\<rparr>"

definition smoke_matchers :: matchers where
  "smoke_matchers =
     \<lparr>name_match = (\<lambda>n ow. False), by_name = False,
      type_match = (\<lambda>t. False), by_type = False,
      tags_match = (\<lambda>ts. ''smoke'' \<in> set ts), by_tags = True\<rparr>"

text \<open>
  What \<open>_get_matcher\<close> gives for the pattern list of the examples, whatever the list is:
  the matchers for \<open>for\<close> loops, or the matchers for the tag \<open>smoke\<close>.
\<close>

definition for_matchers_of :: "string list \<Rightarrow> matchers" where
  "for_matchers_of flattened = for_matchers"

definition smoke_matchers_of :: "string list \<Rightarrow> matchers" where
  "smoke_matchers_of flattened = smoke_matchers"

text \<open>A test with a \<open>for\<close> loop that logs a message, runs a keyword and has a status.\<close>

definition loop_body :: "xml list" where
  "loop_body =
     [Node (msg_elem ''m1'') [],
      Node (kw_elem ''Log'') [Node (msg_elem ''m2'') [], Node (status_elem ''inner'') []],
      Node (status_elem ''done'') []]"

definition loop_doc :: xml where
  "loop_doc = Node test_elem [Node for_elem loop_body]"

text \<open>
  Matchers that flatten the keyword \<open>Middle\<close> and every keyword with the tag \<open>smoke\<close>, and
  a keyword \<open>Outer\<close> that runs a keyword \<open>Middle\<close> that runs a keyword \<open>Inner\<close>: with tags
  of \<open>Outer\<close> before and after \<open>Middle\<close>; with the tag \<open>smoke\<close> of \<open>Middle\<close> before \<open>Inner\<close>;
  with that tag after \<open>Inner\<close> and no tag of \<open>Outer\<close> after \<open>Middle\<close>; and with that tag
  after \<open>Inner\<close> and a tag of \<open>Outer\<close> after \<open>Middle\<close>.
\<close>

definition middle_matchers :: matchers where
  "middle_matchers =
     \<lparr>name_match = (\<lambda>n ow. n = ''Middle''), by_name = True,
      type_match = (\<lambda>t. False), by_type = False,
      tags_match = (\<lambda>ts. ''smoke'' \<in> set ts), by_tags = True\<rparr>"

definition middle_matchers_of :: "string list \<Rightarrow> matchers" where
  "middle_matchers_of flattened = middle_matchers"

definition inner_kw :: xml where
  "inner_kw = Node (kw_elem ''Inner'') [Node (msg_elem ''m'') [], Node (status_elem ''c'') []]"

definition named_doc :: xml where
  "named_doc =
     Node (kw_elem ''Outer'')
       [Node (tag_elem ''other'') [],
        Node (kw_elem ''Middle'') [inner_kw, Node (status_elem ''b'') []],
        Node (tag_elem ''late'') [],
        Node (status_elem ''a'') []]"

definition tag_first_doc :: xml where
  "tag_first_doc =
     Node (kw_elem ''Outer'')
       [Node (tag_elem ''other'') [],
        Node (kw_elem ''Middle'')
          [Node (tag_elem ''smoke'') [], inner_kw, Node (status_elem ''b'') []],
        Node (tag_elem ''late'') [],
        Node (status_elem ''a'') []]"

definition tag_last_doc :: xml where
  "tag_last_doc =
     Node (kw_elem ''Outer'')
       [Node (tag_elem ''other'') [],
        Node (kw_elem ''Middle'')
          [inner_kw, Node (tag_elem ''smoke'') [], Node (status_elem ''b'') []],
        Node (status_elem ''a'') []]"

definition stale_tag_doc :: xml where
  "stale_tag_doc =
     Node (kw_elem ''Outer'')
       [Node (kw_elem ''Middle'')
          [inner_kw, Node (tag_elem ''smoke'') [], Node (status_elem ''b'') []],
        Node (tag_elem ''other'') [],
        Node (status_elem ''a'') []]"

section \<open>The result tree and the detail-stripping visitor\<close>

text \<open>
  Modelled from the spec: the result model (\<open>Result\<close>, \<open>TestSuite\<close>, \<open>TestCase\<close>) is
  imported by the result builder but is not part of the sources at hand. The builder
  touches three of its fields, \<open>suite.setup\<close>, \<open>suite.teardown\<close> and \<open>test.body\<close>, and the
  \<open>suite\<close> and \<open>rpa\<close> attributes of the result. A suite is modelled with these fields, its
  child suites and tests, the element it was built from and the remaining child nodes
  (documentation, metadata, status); a test with its body, its own setup and teardown,
  its element and its remaining child nodes. Keywords and control structures are kept as
  the nodes of the document.
\<close>

record test =
  t_elem :: element
  t_setup :: "xml option"
  body :: "xml list"
  t_teardown :: "xml option"
  t_other :: "xml list"

datatype suite =
  Suite (s_elem: element) (s_setup: "xml option") (s_teardown: "xml option")
    (s_suites: "suite list") (s_tests: "test list") (s_other: "xml list")

type_synonym source = string

record result =
  r_source :: source
  rpa :: "bool option"
  suite :: suite

text \<open>
  \<open>RemoveKeywords\<close>: \<open>start_suite\<close> assigns \<open>None\<close> to the setup and the teardown of the
  suite, \<open>visit_test\<close> assigns the empty list to the body of the test.
\<close>

definition start_suite :: "suite \<Rightarrow> suite" where
  "start_suite s = Suite (s_elem s) None None (s_suites s) (s_tests s) (s_other s)"

definition visit_test :: "test \<Rightarrow> test" where
  "visit_test t = t\<lparr>body := []\<rparr>"

text \<open>
  Modelled from the spec: the traversal of \<open>SuiteVisitor\<close> (\<open>robot.model\<close>), which
  \<open>RemoveKeywords\<close> inherits, is not part of the sources at hand. The spec says that the
  pass clears the setup and teardown of the suites and empties the step list of every
  test: the visitor calls \<open>start_suite\<close> on a suite and then visits its child suites and
  its tests. A setup or teardown that \<open>start_suite\<close> has removed is not visited.
\<close>

fun visit_suite :: "suite \<Rightarrow> suite" where
  "visit_suite (Suite e su td ss ts other) =
     (case start_suite (Suite e su td ss ts other) of
        Suite e' su' td' _ _ other' \<Rightarrow>
          Suite e' su' td' (map visit_suite ss) (map visit_test ts) other')"

text \<open>All suites and all tests of a tree, and what the pass must leave alone.\<close>

fun all_suites :: "suite \<Rightarrow> suite list" where
  "all_suites (Suite e su td ss ts other) =
     Suite e su td ss ts other # concat (map all_suites ss)"

fun all_tests :: "suite \<Rightarrow> test list" where
  "all_tests (Suite e su td ss ts other) = ts @ concat (map all_tests ss)"

datatype frame =
  Frame element "xml list" "frame list" "(element \<times> xml option \<times> xml option \<times> xml list) list"

fun frame_of :: "suite \<Rightarrow> frame" where
  "frame_of (Suite e su td ss ts other) =
     Frame e other (map frame_of ss)
       (map (\<lambda>t. (t_elem t, t_setup t, t_teardown t, t_other t)) ts)"

section \<open>Parsing, building and the factory\<close>

text \<open>
  Exceptions are values. The builder distinguishes \<open>IOError\<close>, of which it reads the
  attribute \<open>strerror\<close> (which Python leaves \<open>None\<close> when the error was raised without an
  error number), from every other exception, of which it asks \<open>get_error_message\<close>. An
  \<open>IOError\<close> is a value with its \<open>strerror\<close> and with its message, \<open>str(err)\<close>, which the
  builder does not read. The factory raises \<open>DataError\<close> with a message.
\<close>

datatype exn = IOError "string option" string | OtherError string

datatype data_error = DataError string

text \<open>
  What the builder is given from outside the sources at hand: opening a source with
  \<open>ETSource\<close> and iterating \<open>ET.iterparse\<close> over it (which fails, or gives the events of
  the document, possibly followed by an error of the tokenizer), the text of an
  \<open>ETSource\<close>, \<open>get_error_message\<close>, the three matchers, \<open>html_escape\<close>, the element
  handler with its \<open>start\<close> and \<open>end\<close> methods, \<open>Result.handle_suite_teardown_failures\<close>,
  \<open>Merger.merge\<close> and \<open>CombinedResult\<close>. They are the fields of an environment.
\<close>

record 'h env =
  open_source :: "source \<Rightarrow> exn + (event list \<times> exn option)"
  source_str :: "source \<Rightarrow> string"
  get_error_message :: "exn \<Rightarrow> string"
  env_matchers :: "string list \<Rightarrow> matchers"
  env_escape :: "string \<Rightarrow> string"
  new_handler :: "result \<Rightarrow> 'h"
  handler_start :: "element \<Rightarrow> 'h \<Rightarrow> exn + 'h"
  handler_end :: "element \<Rightarrow> 'h \<Rightarrow> exn + 'h"
  handler_result :: "'h \<Rightarrow> result"
  handle_suite_teardown_failures :: "result \<Rightarrow> result"
  merger_merge :: "result \<Rightarrow> result \<Rightarrow> data_error + result"
  combined_result :: "result list \<Rightarrow> result"

text \<open>
  The keyword arguments of the factory: \<open>merge\<close> and \<open>rpa\<close>, which the factory removes,
  the two parameters of \<open>ExecutionResultBuilder\<close> with their defaults filled in, and the
  names of any other options, which the constructor of the builder rejects.
\<close>

record options =
  merge :: bool
  opt_rpa :: "bool option"
  include_keywords :: bool
  flattened_keywords :: "string list option"
  extra :: "string list"

text \<open>
  \<open>ExecutionResultBuilder._parse\<close>. The branch it takes is a value of its own, so that
  one can say which filter wraps the event source. A list of patterns is true in Python
  when it is neither \<open>None\<close> nor empty. The loop hands every event of the filtered stream
  to the \<open>start\<close> or the \<open>end\<close> method of the handler and stops at the first exception;
  an error of the tokenizer surfaces when the events before it have been handled. The
  call \<open>elem.clear()\<close> after \<open>end\<close> releases the element of the parser and has no effect
  on the result, so it is left out.
\<close>

datatype filter_choice = NoFilter | OmitKeywords | FlattenKeywords "string list"

definition choose_filter :: "bool \<Rightarrow> string list option \<Rightarrow> filter_choice" where
  "choose_filter incl flattened =
     (if \<not> incl then OmitKeywords
      else (case flattened of
              None \<Rightarrow> NoFilter
            | Some fl \<Rightarrow> if fl \<noteq> [] then FlattenKeywords fl else NoFilter))"

definition apply_filter :: "'h env \<Rightarrow> filter_choice \<Rightarrow> event list \<Rightarrow> event list" where
  "apply_filter env choice context =
     (case choice of
        NoFilter \<Rightarrow> context
      | OmitKeywords \<Rightarrow> yielded (omit_keywords context)
      | FlattenKeywords fl \<Rightarrow>
          yielded (flatten_keywords (env_escape env) (env_matchers env) context fl))"

fun handle_events :: "'h env \<Rightarrow> event list \<Rightarrow> 'h \<Rightarrow> exn + 'h" where
  "handle_events env [] h = Inr h"
| "handle_events env (ev # context) h =
     (case (if fst ev = Start then handler_start env (snd ev) h
            else handler_end env (snd ev) h) of
        Inl e \<Rightarrow> Inl e
      | Inr h' \<Rightarrow> handle_events env context h')"

definition parse ::
  "'h env \<Rightarrow> bool \<Rightarrow> string list option \<Rightarrow> event list \<times> exn option \<Rightarrow> 'h \<Rightarrow> exn + 'h" where
  "parse env incl flattened stream h =
     (let context = apply_filter env (choose_filter incl flattened) (fst stream) in
      case handle_events env context h of
        Inl e \<Rightarrow> Inl e
      | Inr h' \<Rightarrow> (case snd stream of None \<Rightarrow> Inr h' | Some e \<Rightarrow> Inl e))"

text \<open>
  \<open>ExecutionResultBuilder.build\<close>. The list of sources opened so far is passed along, so
  that one can say which sources an ingestion has touched. Entering the \<open>with\<close> block
  opens the source, and the source is closed on every way out of it.
\<close>

definition remove_keywords_pass :: "bool \<Rightarrow> result \<Rightarrow> result" where
  "remove_keywords_pass incl r = (if \<not> incl then r\<lparr>suite := visit_suite (suite r)\<rparr> else r)"

definition build ::
  "'h env \<Rightarrow> source \<Rightarrow> bool \<Rightarrow> string list option \<Rightarrow> result \<Rightarrow> source list
     \<Rightarrow> (exn + result) \<times> source list" where
  "build env src incl flattened r opened =
     (let handler = new_handler env r in
      case open_source env src of
        Inl e \<Rightarrow> (Inl e, opened @ [src])
      | Inr stream \<Rightarrow>
          (case parse env incl flattened stream handler of
             Inl e \<Rightarrow> (Inl e, opened @ [src])
           | Inr h \<Rightarrow>
               (Inr (remove_keywords_pass incl
                      (handle_suite_teardown_failures env (handler_result env h))),
                opened @ [src])))"

text \<open>
  \<open>_single_result\<close>, with the message of the \<open>DataError\<close> it raises. The text of the
  error is \<open>err.strerror\<close> for an \<open>IOError\<close>, which the format string prints as \<open>None\<close>
  when the attribute is not set, and the result of \<open>get_error_message\<close> for any other
  exception. Creating the builder with an option it does not know is a \<open>TypeError\<close> inside
  the \<open>try\<close> block.
\<close>

definition empty_suite :: suite where
  "empty_suite = Suite \<lparr>tag = ''suite'', attrib = [], etext = None\<rparr> None None [] [] []"

definition reading_failed :: "'h env \<Rightarrow> source \<Rightarrow> string \<Rightarrow> string" where
  "reading_failed env src error =
     ''Reading XML source '' @ [CHR 0x27] @ source_str env src @ [CHR 0x27] @ '' failed: '' @ error"

definition error_text :: "'h env \<Rightarrow> exn \<Rightarrow> string" where
  "error_text env e =
     (case e of
        IOError strerror message \<Rightarrow> (case strerror of None \<Rightarrow> ''None'' | Some msg \<Rightarrow> msg)
      | OtherError info \<Rightarrow> get_error_message env e)"

definition single_result ::
  "'h env \<Rightarrow> source \<Rightarrow> options \<Rightarrow> source list \<Rightarrow> (data_error + result) \<times> source list" where
  "single_result env src opts opened =
     (let r = \<lparr>r_source = src, rpa = opt_rpa opts, suite = empty_suite\<rparr> in
      case (if extra opts \<noteq> [] then (Inl (OtherError ''TypeError''), opened)
            else build env src (include_keywords opts) (flattened_keywords opts) r opened) of
        (Inr built, opened') \<Rightarrow> (Inr built, opened')
      | (Inl e, opened') \<Rightarrow>
          (Inl (DataError (reading_failed env src (error_text env e))), opened'))"

text \<open>
  \<open>ExecutionResult\<close>, \<open>_merge_results\<close> and \<open>_combine_results\<close>, which call each other. The
  loops over the sources to merge and to combine are functions of their own.
\<close>

function
  ExecutionResult ::
    "'h env \<Rightarrow> source list \<Rightarrow> options \<Rightarrow> source list \<Rightarrow> (data_error + result) \<times> source list"
  and merge_results ::
    "'h env \<Rightarrow> source \<Rightarrow> source list \<Rightarrow> options \<Rightarrow> source list
       \<Rightarrow> (data_error + result) \<times> source list"
  and merge_loop ::
    "'h env \<Rightarrow> result \<Rightarrow> source list \<Rightarrow> options \<Rightarrow> source list
       \<Rightarrow> (data_error + result) \<times> source list"
  and combine_results ::
    "'h env \<Rightarrow> source list \<Rightarrow> options \<Rightarrow> source list \<Rightarrow> (data_error + result) \<times> source list"
  and combine_loop ::
    "'h env \<Rightarrow> source list \<Rightarrow> options \<Rightarrow> source list
       \<Rightarrow> (data_error + result list) \<times> source list"
where
  "ExecutionResult env [] opts opened =
     (Inl (DataError ''One or more data source needed.''), opened)"
| "ExecutionResult env (src # others) opts opened =
     (if merge opts then merge_results env src others (opts\<lparr>merge := False\<rparr>) opened
      else if length (src # others) > 1 then combine_results env (src # others) opts opened
      else single_result env src opts opened)"
| "merge_results env original merged opts opened =
     (case ExecutionResult env [original] opts opened of
        (Inl e, opened') \<Rightarrow> (Inl e, opened')
      | (Inr r, opened') \<Rightarrow> merge_loop env r merged opts opened')"
| "merge_loop env r [] opts opened = (Inr r, opened)"
| "merge_loop env r (path # merged) opts opened =
     (case ExecutionResult env [path] opts opened of
        (Inl e, opened') \<Rightarrow> (Inl e, opened')
      | (Inr m, opened') \<Rightarrow>
          (case merger_merge env r m of
             Inl e \<Rightarrow> (Inl e, opened')
           | Inr r' \<Rightarrow> merge_loop env r' merged opts opened'))"
| "combine_results env sources opts opened =
     (case combine_loop env sources opts opened of
        (Inl e, opened') \<Rightarrow> (Inl e, opened')
      | (Inr rs, opened') \<Rightarrow> (Inr (combined_result env rs), opened'))"
| "combine_loop env [] opts opened = (Inr [], opened)"
| "combine_loop env (src # sources) opts opened =
     (case ExecutionResult env [src] opts opened of
        (Inl e, opened') \<Rightarrow> (Inl e, opened')
      | (Inr r, opened') \<Rightarrow>
          (case combine_loop env sources opts opened' of
             (Inl e, opened'') \<Rightarrow> (Inl e, opened'')
           | (Inr rs, opened'') \<Rightarrow> (Inr (r # rs), opened'')))"
  by pat_completeness auto
termination
  by (relation "measures
        [\<lambda>x. case x of
           Inl (Inl (env, sources, opts, opened)) \<Rightarrow> if merge opts then 1 else 0
         | Inl (Inr (env, original, merged, opts, opened)) \<Rightarrow> if merge opts then 1 else 0
         | Inr (Inl (env, r, merged, opts, opened)) \<Rightarrow> if merge opts then 1 else 0
         | Inr (Inr (Inl (env, sources, opts, opened))) \<Rightarrow> if merge opts then 1 else 0
         | Inr (Inr (Inr (env, sources, opts, opened))) \<Rightarrow> if merge opts then 1 else 0,
         \<lambda>x. case x of
           Inl (Inl (env, sources, opts, opened)) \<Rightarrow>
             if length sources > 1 then 3 + length sources else 0
         | Inl (Inr (env, original, merged, opts, opened)) \<Rightarrow> 2 + length merged
         | Inr (Inl (env, r, merged, opts, opened)) \<Rightarrow> 1 + length merged
         | Inr (Inr (Inl (env, sources, opts, opened))) \<Rightarrow> 2 + length sources
         | Inr (Inr (Inr (env, sources, opts, opened))) \<Rightarrow> 1 + length sources]")
    auto

section \<open>A model of the tree builder\<close>

fun root :: "xml \<Rightarrow> element" where
  "root (Node elem cs) = elem"

fun child_nodes :: "xml \<Rightarrow> xml list" where
  "child_nodes (Node elem cs) = cs"

text \<open>
  Modelled from the spec: the element handler (\<open>XmlElementHandler\<close>) is not part of the
  sources at hand. The spec says that the tree builder constructs or finalizes one node
  per Open/Close pair and that the result is a hierarchy of suites, tests and keyword or
  control-structure nodes. The model keeps a stack of the nodes that are open; a Close
  event finishes the node on top with the element as it is at that moment and hands it to
  its parent. The first \<open>suite\<close> node at the top becomes the suite of the result: a \<open>kw\<close>
  node with type \<open>SETUP\<close> or \<open>TEARDOWN\<close> is the setup or teardown of the suite or test it
  is a child of, the other container nodes of a test are its body.
\<close>

record builder =
  stack :: "(element \<times> xml list) list"
  roots :: "xml list"
  target :: result

definition builder_start :: "element \<Rightarrow> builder \<Rightarrow> exn + builder" where
  "builder_start elem b = Inr (b\<lparr>stack := (elem, []) # stack b\<rparr>)"

definition builder_end :: "element \<Rightarrow> builder \<Rightarrow> exn + builder" where
  "builder_end elem b =
     (case stack b of
        [] \<Rightarrow> Inr b
      | (opened, cs) # [] \<Rightarrow> Inr (b\<lparr>stack := [], roots := roots b @ [Node elem (rev cs)]\<rparr>)
      | (opened, cs) # (parent, siblings) # up \<Rightarrow>
          Inr (b\<lparr>stack := (parent, Node elem (rev cs) # siblings) # up\<rparr>))"

definition is_kw_type :: "string \<Rightarrow> xml \<Rightarrow> bool" where
  "is_kw_type ty n = (tag (root n) = ''kw'' \<and> get (root n) ''type'' = Some ty)"

definition is_step :: "xml \<Rightarrow> bool" where
  "is_step n =
     (tag (root n) \<in> set containers \<and> \<not> is_kw_type ''SETUP'' n \<and> \<not> is_kw_type ''TEARDOWN'' n)"

definition to_test :: "xml \<Rightarrow> test" where
  "to_test n =
     \<lparr>t_elem = root n,
      t_setup = find (is_kw_type ''SETUP'') (child_nodes n),
      body = filter is_step (child_nodes n),
      t_teardown = find (is_kw_type ''TEARDOWN'') (child_nodes n),
      t_other = filter (\<lambda>c. tag (root c) \<notin> set containers) (child_nodes n)\<rparr>"

fun to_suite :: "xml \<Rightarrow> suite" where
  "to_suite (Node elem cs) =
     Suite elem
       (find (is_kw_type ''SETUP'') cs)
       (find (is_kw_type ''TEARDOWN'') cs)
       (map to_suite (filter (\<lambda>c. tag (root c) = ''suite'') cs))
       (map to_test (filter (\<lambda>c. tag (root c) = ''test'') cs))
       (filter (\<lambda>c. tag (root c) \<notin> set (''suite'' # ''test'' # containers)) cs)"

definition builder_result :: "builder \<Rightarrow> result" where
  "builder_result b =
     (case find (\<lambda>n. tag (root n) = ''suite'') (roots b) of
        None \<Rightarrow> target b
      | Some n \<Rightarrow> (target b)\<lparr>suite := to_suite n\<rparr>)"

text \<open>
  Modelled from the spec: \<open>Result.handle_suite_teardown_failures\<close> is not part of the
  sources at hand. The spec says that when the teardown of a suite failed, every test
  directly or transitively under that suite is marked failed. A node has failed when its
  status child has the status \<open>FAIL\<close>.
\<close>

definition node_failed :: "xml \<Rightarrow> bool" where
  "node_failed n =
     list_ex (\<lambda>c. tag (root c) = ''status'' \<and> get (root c) ''status'' = Some ''FAIL'')
       (child_nodes n)"

fun fail_status :: "xml \<Rightarrow> xml" where
  "fail_status (Node elem cs) =
     (if tag elem = ''status''
      then Node (elem\<lparr>attrib := (''status'', ''FAIL'') # attrib elem\<rparr>) cs
      else Node elem cs)"

definition fail_test :: "test \<Rightarrow> test" where
  "fail_test t = t\<lparr>t_other := map fail_status (t_other t)\<rparr>"

fun fail_all_tests :: "suite \<Rightarrow> suite" where
  "fail_all_tests (Suite e su td ss ts other) =
     Suite e su td (map fail_all_tests ss) (map fail_test ts) other"

fun teardown_failures :: "suite \<Rightarrow> suite" where
  "teardown_failures (Suite e su td ss ts other) =
     (let s = Suite e su td (map teardown_failures ss) ts other in
      case td of
        None \<Rightarrow> s
      | Some n \<Rightarrow> if node_failed n then fail_all_tests s else s)"

text \<open>
  The environment of the model: a table tells what opening each source gives; merging
  and combining, which the spec leaves to a collaborator, keep the first result.
\<close>

definition model_env :: "(source \<Rightarrow> exn + (event list \<times> exn option)) \<Rightarrow> builder env" where
  "model_env table =
     \<lparr>open_source = table,
      source_str = (\<lambda>src. src),
      get_error_message = (\<lambda>e. case e of IOError strerror message \<Rightarrow> message | OtherError info \<Rightarrow> info),
      env_matchers = for_matchers_of,
      env_escape = html_escape,
      new_handler = (\<lambda>r. \<lparr>stack = [], roots = [], target = r\<rparr>),
      handler_start = builder_start,
      handler_end = builder_end,
      handler_result = builder_result,
      handle_suite_teardown_failures = (\<lambda>r. r\<lparr>suite := teardown_failures (suite r)\<rparr>),
      merger_merge = (\<lambda>r m. Inr r),
      combined_result = (\<lambda>rs. case rs of [] \<Rightarrow> \<lparr>r_source = '''', rpa = None, suite = empty_suite\<rparr> | r # _ \<Rightarrow> r)\<rparr>"

text \<open>The post-hoc stripping of the omitted node kinds from a finished tree.\<close>

definition strip_option :: "xml option \<Rightarrow> xml option" where
  "strip_option x =
     (case x of
        None \<Rightarrow> None
      | Some n \<Rightarrow> (case strip_omitted n of [] \<Rightarrow> None | m # _ \<Rightarrow> Some m))"

definition strip_test :: "test \<Rightarrow> test" where
  "strip_test t =
     \<lparr>t_elem = t_elem t,
      t_setup = strip_option (t_setup t),
      body = concat (map strip_omitted (body t)),
      t_teardown = strip_option (t_teardown t),
      t_other = concat (map strip_omitted (t_other t))\<rparr>"

fun strip_suite :: "suite \<Rightarrow> suite" where
  "strip_suite (Suite e su td ss ts other) =
     Suite e (strip_option su) (strip_option td) (map strip_suite ss) (map strip_test ts)
       (concat (map strip_omitted other))"

text \<open>A tree without any of the omitted node kinds.\<close>

fun omit_free :: "xml \<Rightarrow> bool" where
  "omit_free (Node elem cs) = (\<not> omit elem \<and> list_all omit_free cs)"

definition option_all :: "('a \<Rightarrow> bool) \<Rightarrow> 'a option \<Rightarrow> bool" where
  "option_all P x = (case x of None \<Rightarrow> True | Some v \<Rightarrow> P v)"

definition test_omit_free :: "test \<Rightarrow> bool" where
  "test_omit_free t =
     (option_all omit_free (t_setup t) \<and> list_all omit_free (body t)
      \<and> option_all omit_free (t_teardown t) \<and> list_all omit_free (t_other t))"

fun suite_omit_free :: "suite \<Rightarrow> bool" where
  "suite_omit_free (Suite e su td ss ts other) =
     (option_all omit_free su \<and> option_all omit_free td \<and> list_all suite_omit_free ss
      \<and> list_all test_omit_free ts \<and> list_all omit_free other)"

section \<open>Example sources and options\<close>

text \<open>A keyword that runs a keyword before its \<open>tag\<close> element.\<close>

definition tagged_kw :: xml where
  "tagged_kw =
     Node (kw_elem ''Tagged'')
       [Node (kw_elem ''Log'') [Node (status_elem ''inner'') []],
        Node (tag_elem ''smoke'') [],
        Node (status_elem ''done'') []]"

text \<open>
  A suite with one test and a passing teardown, and a table of sources: one that holds
  this document, one whose tokenizer fails after the first event, and none else.
\<close>

definition suite_elem :: element where
  "suite_elem = \<lparr>tag = ''suite'', attrib = [(''name'', ''S'')], etext = None\<rparr>"

definition test_node :: xml where
  "test_node =
     Node test_elem [Node log_kw [Node (status_elem ''ok'') []], Node (status_elem ''t'') []]"

definition suite_doc :: xml where
  "suite_doc =
     Node suite_elem
       [test_node, Node teardown_kw [Node (status_elem ''td'') []], Node (status_elem ''s'') []]"

definition stripped_doc :: xml where
  "stripped_doc =
     Node suite_elem
       [Node test_elem [Node (status_elem ''t'') []],
        Node teardown_kw [Node (status_elem ''td'') []],
        Node (status_elem ''s'') []]"

definition files :: "source \<Rightarrow> exn + (event list \<times> exn option)" where
  "files src =
     (if src = ''output.xml'' then Inr (events suite_doc, None)
      else if src = ''broken.xml''
        then Inr ([(Start, suite_elem)], Some (OtherError ''ParseError: no element found''))
      else Inl (IOError (Some ''No such file or directory'')
                 ''[Errno 2] No such file or directory''))"

definition default_options :: options where
  "default_options =
     \<lparr>merge = False, opt_rpa = None, include_keywords = True, flattened_keywords = None,
      extra = []\<rparr>"

text \<open>
  The options of a caller that wants a report only and still gives a flattening pattern,
  and of a caller that wants \<open>for\<close> loops flattened.
\<close>

definition report_options :: options where
  "report_options =
     default_options\<lparr>include_keywords := False, flattened_keywords := Some [''FOR'']\<rparr>"

definition flatten_options :: options where
  "flatten_options = default_options\<lparr>flattened_keywords := Some [''FOR'']\<rparr>"

definition new_result :: "source \<Rightarrow> result" where
  "new_result src = \<lparr>r_source = src, rpa = None, suite = empty_suite\<rparr>"

text \<open>
  An element handler that raises at the first element, and a source whose reading raises
  an \<open>IOError\<close> that has a message and no error number.
\<close>

definition failing_env :: "builder env" where
  "failing_env = (model_env files)\<lparr>handler_start := (\<lambda>elem h. Inl (OtherError ''ValueError: bad element''))\<rparr>"

definition unreadable_env :: "builder env" where
  "unreadable_env = (model_env files)\<lparr>open_source := (\<lambda>src. Inl (IOError None ''not readable''))\<rparr>"

text \<open>Adding a finished node to the builder, and a node with the omitted subtrees removed below it.\<close>

definition add_node :: "xml \<Rightarrow> builder \<Rightarrow> builder" where
  "add_node n b =
     (case stack b of
        [] \<Rightarrow> b\<lparr>roots := roots b @ [n]\<rparr>
      | (parent, siblings) # up \<Rightarrow> b\<lparr>stack := (parent, n # siblings) # up\<rparr>)"

definition uses_builder :: "builder env \<Rightarrow> bool" where
  "uses_builder env = (handler_start env = builder_start \<and> handler_end env = builder_end)"

definition strip_node :: "xml \<Rightarrow> xml" where
  "strip_node n = Node (root n) (concat (map strip_omitted (child_nodes n)))"

text \<open>A suite whose teardown, where it has one, is a keyword of type \<open>TEARDOWN\<close>.\<close>

fun teardown_typed :: "suite \<Rightarrow> bool" where
  "teardown_typed (Suite e su td ss ts other) =
     (option_all (is_kw_type ''TEARDOWN'') td \<and> list_all teardown_typed ss)"

section \<open>Properties of the message-flattening rule\<close>

text \<open>
  C1. The flattened message is a function of the original status text alone, with three
  cases: no text or empty text gives exactly the marker followed by the italic note; text
  that starts with the HTML marker gives the marker, the text without its first six
  characters and trimmed, a horizontal rule and the note; any other text gives the
  marker, the escaped text, a horizontal rule and the note. The two examples of the
  specification evaluate as it says, the second one for every escaping function that
  maps its text to the escaped text the specification gives.
\<close>

theorem create_flattened_message_cases:
  "create_flattened_message esc None = ''*HTML* <i>Content flattened.</i>''
   \<and> create_flattened_message esc (Some '''') = ''*HTML* <i>Content flattened.</i>''
   \<and> (startswith s ''*HTML*'' \<longrightarrow>
        create_flattened_message esc (Some s) =
          ''*HTML* '' @ strip (drop 6 s) @ ''<hr><i>Content flattened.</i>'')
   \<and> (s \<noteq> '''' \<and> \<not> startswith s ''*HTML*'' \<longrightarrow>
        create_flattened_message esc (Some s) =
          ''*HTML* '' @ esc s @ ''<hr><i>Content flattened.</i>'')
   \<and> create_flattened_message esc (Some ''*HTML* <b>ok</b>'') =
         ''*HTML* <b>ok</b><hr><i>Content flattened.</i>''
   \<and> (esc ''a < b'' = ''a &lt; b'' \<longrightarrow>
        create_flattened_message esc (Some ''a < b'') =
          ''*HTML* a &lt; b<hr><i>Content flattened.</i>'')"
proof -
  have none: "create_flattened_message esc None = ''*HTML* <i>Content flattened.</i>''"
    by (simp add: create_flattened_message_def)
  have empty: "create_flattened_message esc (Some '''') = ''*HTML* <i>Content flattened.</i>''"
    by (simp add: create_flattened_message_def)
  have html: "startswith s ''*HTML*'' \<longrightarrow>
      create_flattened_message esc (Some s) =
        ''*HTML* '' @ strip (drop 6 s) @ ''<hr><i>Content flattened.</i>''"
    by (auto simp add: create_flattened_message_def startswith_def)
  have plain: "s \<noteq> '''' \<and> \<not> startswith s ''*HTML*'' \<longrightarrow>
      create_flattened_message esc (Some s) =
        ''*HTML* '' @ esc s @ ''<hr><i>Content flattened.</i>''"
    by (simp add: create_flattened_message_def)
  have ex1: "create_flattened_message esc (Some ''*HTML* <b>ok</b>'') =
      ''*HTML* <b>ok</b><hr><i>Content flattened.</i>''"
    by (simp add: create_flattened_message_def startswith_def strip_def lstrip_def
        rstrip_def isspace_def)
  have ex2: "esc ''a < b'' = ''a &lt; b'' \<longrightarrow>
      create_flattened_message esc (Some ''a < b'') =
        ''*HTML* a &lt; b<hr><i>Content flattened.</i>''"
    by (simp add: create_flattened_message_def startswith_def)
  from none empty html plain ex1 ex2 show ?thesis by blast
qed

text \<open>
  The cases of C1 at a text with the marker and surrounding blanks, at a plain text with
  a character to escape, and at the plain text of the specification, with the modelled
  escaping.
\<close>

theorem create_flattened_message_cases_witness:
  "startswith ''*HTML*  <i>x</i> '' ''*HTML*''
   \<and> create_flattened_message html_escape (Some ''*HTML*  <i>x</i> '') =
         ''*HTML* <i>x</i><hr><i>Content flattened.</i>''
   \<and> ''R&D'' \<noteq> '''' \<and> \<not> startswith ''R&D'' ''*HTML*''
   \<and> create_flattened_message html_escape (Some ''R&D'') =
         ''*HTML* R&amp;D<hr><i>Content flattened.</i>''
   \<and> html_escape ''a < b'' = ''a &lt; b''
   \<and> create_flattened_message html_escape (Some ''a < b'') =
         ''*HTML* a &lt; b<hr><i>Content flattened.</i>''"
proof -
  have h1: "startswith ''*HTML*  <i>x</i> '' ''*HTML*''"
    by (simp add: startswith_def)
  have h2: "''R&D'' \<noteq> '''' \<and> \<not> startswith ''R&D'' ''*HTML*''"
    by (simp add: startswith_def)
  have h3: "html_escape ''a < b'' = ''a &lt; b''"
    by (simp add: html_escape_def)
  have s: "strip (drop 6 ''*HTML*  <i>x</i> '') = ''<i>x</i>''"
    by (simp add: strip_def lstrip_def rstrip_def isspace_def)
  have e: "html_escape ''R&D'' = ''R&amp;D''"
    by (simp add: html_escape_def)
  from create_flattened_message_cases [of html_escape "''*HTML*  <i>x</i> ''"] h1 s
  have c1: "create_flattened_message html_escape (Some ''*HTML*  <i>x</i> '') =
      ''*HTML* <i>x</i><hr><i>Content flattened.</i>''"
    by simp
  from create_flattened_message_cases [of html_escape "''R&D''"] h2 e
  have c2: "create_flattened_message html_escape (Some ''R&D'') =
      ''*HTML* R&amp;D<hr><i>Content flattened.</i>''"
    by simp
  from create_flattened_message_cases [of html_escape] h3
  have c3: "create_flattened_message html_escape (Some ''a < b'') =
      ''*HTML* a &lt; b<hr><i>Content flattened.</i>''"
    by blast
  from h1 h2 h3 c1 c2 c3 show ?thesis by blast
qed

section \<open>Properties of the omission filter\<close>

text \<open>
  The action at each index of the stream is decided by the counter before the loop and
  the number of omitted elements open at that index.
\<close>

lemma omit_loop_length: "length (omit_loop k evs) = length evs"
  by (induction evs arbitrary: k) (auto split: prod.splits)

lemma omit_loop_nth:
  "i < length evs \<Longrightarrow>
   omit_loop k evs ! i =
     (if k + open_omitted evs i = 0 then Yield (evs ! i)
      else if fst (evs ! i) = End then Clear (snd (evs ! i))
      else Skip)"
proof (induction evs arbitrary: k i)
  case Nil
  then show ?case by simp
next
  case (Cons ev evs)
  show ?case
  proof (cases i)
    case 0
    then show ?thesis
      by (cases "fst ev") (auto simp add: omit_step_def open_omitted_def Let_def)
  next
    case (Suc j)
    with Cons.prems have j: "j < length evs" by simp
    obtain act k' where st: "omit_step k ev = (act, k')" by (cases "omit_step k ev")
    have k': "k' + open_omitted evs j = k + open_omitted (ev # evs) (Suc j)"
      using st by (cases "fst ev") (auto simp add: omit_step_def open_omitted_def Let_def)
    from Cons.IH [OF j, of k'] st Suc k' show ?thesis by simp
  qed
qed

text \<open>
  On the events of a tree the filter either suppresses everything and leaves the counter
  as it was (when the counter is positive), or yields the stripped tree (when it is zero).
\<close>

lemma omit_loop_append:
  "omit_loop k (xs @ ys) = omit_loop k xs @ omit_loop (omit_count k xs) ys"
  by (induction xs arbitrary: k) (auto split: prod.splits)

lemma omit_count_append: "omit_count k (xs @ ys) = omit_count (omit_count k xs) ys"
  by (induction xs arbitrary: k) auto

lemma yielded_append: "yielded (xs @ ys) = yielded xs @ yielded ys"
  by (induction xs rule: yielded.induct) auto

lemma omit_suppressed_forest:
  assumes "\<And>t k. t \<in> set ts \<Longrightarrow> 0 < k \<Longrightarrow>
             yielded (omit_loop k (events t)) = [] \<and> omit_count k (events t) = k"
    and "0 < k"
  shows "yielded (omit_loop k (concat (map events ts))) = []
         \<and> omit_count k (concat (map events ts)) = k"
  using assms
  by (induction ts) (auto simp add: omit_loop_append omit_count_append yielded_append)

lemma omit_suppressed_tree:
  "0 < k \<Longrightarrow> yielded (omit_loop k (events t)) = [] \<and> omit_count k (events t) = k"
proof (induction t arbitrary: k)
  case (Node elem children)
  have pos: "0 < (if omit elem then k + 1 else k)" using Node.prems by simp
  from omit_suppressed_forest [of children, OF Node.IH pos]
  have inner: "yielded (omit_loop (if omit elem then k + 1 else k) (concat (map events children))) = []"
    "omit_count (if omit elem then k + 1 else k) (concat (map events children))
       = (if omit elem then k + 1 else k)"
    by simp_all
  show ?case
    using Node.prems inner
    by (auto simp add: omit_step_def Let_def omit_loop_append omit_count_append yielded_append)
qed

lemma omit_forwarded_forest:
  assumes "\<And>t. t \<in> set ts \<Longrightarrow>
             yielded (omit_loop 0 (events t)) = events_forest (strip_omitted t)
             \<and> omit_count 0 (events t) = 0"
  shows "yielded (omit_loop 0 (concat (map events ts)))
           = events_forest (concat (map strip_omitted ts))
         \<and> omit_count 0 (concat (map events ts)) = 0"
  using assms
  by (induction ts)
    (auto simp add: omit_loop_append omit_count_append yielded_append events_forest_def)

lemma omit_forwarded_tree:
  "yielded (omit_loop 0 (events t)) = events_forest (strip_omitted t)
   \<and> omit_count 0 (events t) = 0"
proof (induction t)
  case (Node elem children)
  show ?case
  proof (cases "omit elem")
    case True
    from omit_suppressed_forest [of children 1] omit_suppressed_tree
    have "yielded (omit_loop 1 (concat (map events children))) = []"
      "omit_count 1 (concat (map events children)) = 1"
      by simp_all
    with True show ?thesis
      by (simp add: omit_step_def Let_def omit_loop_append omit_count_append yielded_append
          events_forest_def)
  next
    case False
    from omit_forwarded_forest [of children, OF Node.IH]
    have "yielded (omit_loop 0 (concat (map events children)))
            = events_forest (concat (map strip_omitted children))"
      "omit_count 0 (concat (map events children)) = 0"
      by simp_all
    with False show ?thesis
      by (simp add: omit_step_def Let_def omit_loop_append omit_count_append yielded_append
          events_forest_def)
  qed
qed

lemma omit_keywords_strips:
  "yielded (omit_keywords (events_forest ts)) = events_forest (concat (map strip_omitted ts))"
  using omit_forwarded_forest [of ts] omit_forwarded_tree
  by (simp add: omit_keywords_def events_forest_def)

text \<open>
  C2, as amended. For every event stream, the omission filter yields the event with
  index \<open>i\<close> if and only if the number of omitted elements open at \<open>i\<close> is zero;
  otherwise it clears the element when the event is a Close and does nothing when it is
  an Open. An element is omitted when its tag is \<open>kw\<close>, \<open>for\<close> or \<open>if\<close> and its type is not
  \<open>TEARDOWN\<close>, so \<open>while\<close>, \<open>iter\<close> and \<open>try\<close> never start an omission. For every well-formed
  document the events the filter yields are the events of the document without the
  subtrees of its omitted elements, at every depth: an omitted subtree is suppressed
  whole, with its own Open and Close, and a \<open>TEARDOWN\<close> keyword is forwarded where it is
  not below an omitted element, without the omitted subtrees below it.
\<close>

theorem omit_keywords_forwarding:
  "(i < length evs \<longrightarrow>
      omit_keywords evs ! i =
        (if open_omitted evs i = 0 then Yield (evs ! i)
         else if fst (evs ! i) = End then Clear (snd (evs ! i))
         else Skip))
   \<and> yielded (omit_keywords (events_forest ts)) = events_forest (concat (map strip_omitted ts))
   \<and> (tag elem \<in> set [''while'', ''iter'', ''try''] \<longrightarrow> \<not> omit elem)"
proof -
  have a: "i < length evs \<longrightarrow>
      omit_keywords evs ! i =
        (if open_omitted evs i = 0 then Yield (evs ! i)
         else if fst (evs ! i) = End then Clear (snd (evs ! i))
         else Skip)"
    using omit_loop_nth [of i evs 0] by (simp add: omit_keywords_def)
  have c: "tag elem \<in> set [''while'', ''iter'', ''try''] \<longrightarrow> \<not> omit elem"
    by (auto simp add: omit_def)
  from a omit_keywords_strips [of ts] c show ?thesis by blast
qed

text \<open>
  C2 at a test with a keyword and a teardown that runs a keyword: the Close of the first
  keyword is cleared, the Open of the teardown is yielded, and the stream that is left is
  the test with the teardown alone.
\<close>

theorem omit_keywords_forwarding_witness:
  "(3::nat) < length (events (Node test_elem [Node log_kw [], Node teardown_kw [Node log_kw []]]))
   \<and> omit_keywords (events (Node test_elem [Node log_kw [], Node teardown_kw [Node log_kw []]])) ! 3
       = Yield (Start, teardown_kw)
   \<and> omit_keywords (events (Node test_elem [Node log_kw [], Node teardown_kw [Node log_kw []]])) ! 2
       = Clear log_kw
   \<and> yielded (omit_keywords (events_forest [Node test_elem [Node log_kw [], Node teardown_kw [Node log_kw []]]]))
       = [(Start, test_elem), (Start, teardown_kw), (End, teardown_kw), (End, test_elem)]
   \<and> tag while_elem \<in> set [''while'', ''iter'', ''try''] \<and> \<not> omit while_elem"
proof -
  let ?evs = "events (Node test_elem [Node log_kw [], Node teardown_kw [Node log_kw []]])"
  have l3: "(3::nat) < length ?evs" and l2: "(2::nat) < length ?evs" by simp_all
  have o3: "open_omitted ?evs 3 = 0" and e3: "?evs ! 3 = (Start, teardown_kw)"
    by (simp_all add: open_omitted_def omit_def get_def teardown_kw_def log_kw_def test_elem_def
        eval_nat_numeral)
  have o2: "open_omitted ?evs 2 = 1" and e2: "?evs ! 2 = (End, log_kw)"
    by (simp_all add: open_omitted_def omit_def get_def teardown_kw_def log_kw_def test_elem_def
        eval_nat_numeral)
  have w: "tag while_elem \<in> set [''while'', ''iter'', ''try'']"
    by (simp add: while_elem_def)
  have s: "events_forest (concat (map strip_omitted
              [Node test_elem [Node log_kw [], Node teardown_kw [Node log_kw []]]]))
           = [(Start, test_elem), (Start, teardown_kw), (End, teardown_kw), (End, test_elem)]"
    by (simp add: events_forest_def omit_def get_def teardown_kw_def log_kw_def test_elem_def)
  note th3 = omit_keywords_forwarding [of 3 ?evs
      "[Node test_elem [Node log_kw [], Node teardown_kw [Node log_kw []]]]" while_elem]
  from th3 l3 have "omit_keywords ?evs ! 3 =
      (if open_omitted ?evs 3 = 0 then Yield (?evs ! 3)
       else if fst (?evs ! 3) = End then Clear (snd (?evs ! 3)) else Skip)"
    by blast
  with o3 e3 have r3: "omit_keywords ?evs ! 3 = Yield (Start, teardown_kw)"
    by simp
  from th3 s have rs: "yielded (omit_keywords (events_forest
        [Node test_elem [Node log_kw [], Node teardown_kw [Node log_kw []]]]))
       = [(Start, test_elem), (Start, teardown_kw), (End, teardown_kw), (End, test_elem)]"
    by simp
  from th3 w have rw: "\<not> omit while_elem"
    by blast
  from omit_keywords_forwarding [of 2 ?evs "[]" while_elem] l2
  have "omit_keywords ?evs ! 2 =
      (if open_omitted ?evs 2 = 0 then Yield (?evs ! 2)
       else if fst (?evs ! 2) = End then Clear (snd (?evs ! 2)) else Skip)"
    by blast
  with o2 e2 have r2: "omit_keywords ?evs ! 2 = Clear log_kw"
    by simp
  from l3 r3 r2 rs w rw show ?thesis by blast
qed

text \<open>
  C2 as stated says that the subtrees rooted at a \<open>kw\<close>, \<open>for\<close> or \<open>if\<close> element with type
  \<open>TEARDOWN\<close> are forwarded. The keyword that a teardown runs is not forwarded, and a
  teardown inside a keyword is not forwarded at all.
\<close>

theorem omit_keywords_teardown_subtree_counterexample:
  "get teardown_kw ''type'' = Some ''TEARDOWN''
   \<and> yielded (omit_keywords (events (Node teardown_kw [Node log_kw []])))
       = [(Start, teardown_kw), (End, teardown_kw)]
   \<and> yielded (omit_keywords (events (Node teardown_kw [Node log_kw []])))
       \<noteq> events (Node teardown_kw [Node log_kw []])
   \<and> yielded (omit_keywords (events (Node log_kw [Node teardown_kw []]))) = []"
  by (simp add: omit_keywords_def omit_step_def omit_def get_def teardown_kw_def log_kw_def)

section \<open>Properties of the flattening filter\<close>

subsection \<open>The loop on stretches of the stream\<close>

lemma flatten_loop_append:
  "flatten_loop esc m s (xs @ ys) =
     flatten_loop esc m s xs @ flatten_loop esc m (flatten_state_after esc m s xs) ys"
  by (induction xs arbitrary: s) (auto split: prod.splits)

lemma flatten_state_after_append:
  "flatten_state_after esc m s (xs @ ys) =
     flatten_state_after esc m (flatten_state_after esc m s xs) ys"
  by (induction xs arbitrary: s) auto

lemma flatten_loop_length: "length (flatten_loop esc m s evs) = length evs"
  by (induction evs arbitrary: s) (auto split: prod.splits)

lemma flatten_loop_nth:
  "i < length evs \<Longrightarrow>
   flatten_loop esc m s evs ! i
     = fst (flatten_step esc m (flatten_state_after esc m s (take i evs)) (evs ! i))"
proof (induction evs arbitrary: s i)
  case Nil
  then show ?case by simp
next
  case (Cons ev evs)
  show ?case
  proof (cases i)
    case 0
    then show ?thesis by (simp split: prod.splits)
  next
    case (Suc j)
    with Cons.prems have "j < length evs" by simp
    from Cons.IH [OF this] Suc show ?thesis by (simp split: prod.splits)
  qed
qed

lemma msg_not_container: "tag elem \<in> set containers \<Longrightarrow> tag elem \<noteq> ''msg''"
  by (auto simp add: containers_def)

lemma status_not_container: "tag elem = ''status'' \<Longrightarrow> tag elem \<notin> set containers"
  by (auto simp add: containers_def)

subsection \<open>Single steps\<close>

lemma step_start_container_flattening:
  "0 \<le> started s \<Longrightarrow> tag elem \<in> set containers \<Longrightarrow>
   flatten_step esc m s (Start, elem) =
     (Clear elem, s\<lparr>inside := inside s + 1, started := started s + 1, tags := []\<rparr>)"
  by (auto simp add: flatten_step_def flatten_update_def Let_def dest: msg_not_container)

lemma step_end_container_flattening:
  "0 < started s \<Longrightarrow> tag elem \<in> set containers \<Longrightarrow>
   flatten_step esc m s (End, elem) =
     (Clear elem, s\<lparr>inside := inside s - 1, started := started s - 1\<rparr>)"
  by (auto simp add: flatten_step_def flatten_update_def Let_def dest: msg_not_container)

lemma step_start_other:
  "tag elem \<notin> set containers \<Longrightarrow>
   flatten_step esc m s (Start, elem) =
     (if started s \<le> 0 \<or> tag elem = ''msg'' then Yield (Start, elem) else Clear elem, s)"
  by (simp add: flatten_step_def flatten_update_def Let_def)

lemma step_end_other_flattening:
  "0 \<le> started s \<Longrightarrow> tag elem \<notin> set containers \<Longrightarrow>
   flatten_step esc m s (End, elem) =
     (if started s = 0 then Yield (End, rewrite_status esc elem)
      else if tag elem = ''msg'' then Yield (End, elem) else Clear elem, s)"
  by (auto simp add: flatten_step_def flatten_update_def Let_def rewrite_status_def)

lemma step_start_container_trigger:
  "started s < 0 \<Longrightarrow> tag elem \<in> set containers \<Longrightarrow> triggers m elem \<Longrightarrow>
   flatten_step esc m s (Start, elem) =
     (Yield (Start, elem), s\<lparr>inside := inside s + 1, started := 0, tags := []\<rparr>)"
  by (auto simp add: flatten_step_def flatten_update_def Let_def triggers_def)

lemma step_end_container_level:
  "started s = 0 \<Longrightarrow> tag elem \<in> set containers \<Longrightarrow>
   flatten_step esc m s (End, elem) =
     (Yield (End, elem), s\<lparr>inside := inside s - 1, started := - 1\<rparr>)"
  by (auto simp add: flatten_step_def flatten_update_def Let_def)

lemma step_start_container_idle:
  "started s < 0 \<Longrightarrow> tag elem \<in> set containers \<Longrightarrow> \<not> triggers m elem \<Longrightarrow>
   flatten_step esc m s (Start, elem) =
     (Yield (Start, elem), s\<lparr>inside := inside s + 1, tags := []\<rparr>)"
  by (auto simp add: flatten_step_def flatten_update_def Let_def triggers_def)

lemma step_end_container_idle:
  "started s < 0 \<Longrightarrow> tag elem \<in> set containers \<Longrightarrow>
   flatten_step esc m s (End, elem) = (Yield (End, elem), s\<lparr>inside := inside s - 1\<rparr>)"
  by (auto simp add: flatten_step_def flatten_update_def Let_def)

lemma step_end_other_idle:
  "started s < 0 \<Longrightarrow> tag elem \<notin> set containers \<Longrightarrow> tag elem \<noteq> ''tag'' \<Longrightarrow>
   flatten_step esc m s (End, elem) = (Yield (End, elem), s)"
  by (auto simp add: flatten_step_def flatten_update_def Let_def)

lemma step_end_tag_trigger:
  "started s < 0 \<Longrightarrow> by_tags m \<Longrightarrow> inside s \<noteq> 0 \<Longrightarrow> tag elem = ''tag'' \<Longrightarrow>
   tags_match m (tags s @ [case etext elem of None \<Rightarrow> '''' | Some t \<Rightarrow> t]) \<Longrightarrow>
   flatten_step esc m s (End, elem) =
     (Yield (End, elem),
      s\<lparr>tags := tags s @ [case etext elem of None \<Rightarrow> '''' | Some t \<Rightarrow> t], started := 0\<rparr>)"
  by (simp add: flatten_step_def flatten_update_def Let_def containers_def)

lemma flatten_step_decision:
  "fst (flatten_step esc m s ev) =
     (case flatten_update esc m s ev of
        (s1, elem) \<Rightarrow>
          if started s1 \<le> 0 \<or> tag (snd ev) = ''msg'' then Yield (fst ev, elem)
          else Clear (snd ev))"
  by (cases ev; cases "fst ev")
    (auto simp add: flatten_step_def flatten_update_def Let_def)

lemma flatten_step_msg:
  "tag (snd ev) = ''msg'' \<Longrightarrow> fst (flatten_step esc m s ev) = Yield ev"
  by (cases ev) (auto simp add: flatten_step_def flatten_update_def Let_def containers_def)

lemma flatten_step_action:
  "fst (flatten_step esc m s ev) = Yield ev
   \<or> fst (flatten_step esc m s ev) = Yield (End, rewrite_status esc (snd ev))
        \<and> fst ev = End \<and> tag (snd ev) = ''status'' \<and> started s = 0
   \<or> fst (flatten_step esc m s ev) = Clear (snd ev)"
  by (cases ev; cases "fst ev")
    (auto simp add: flatten_step_def flatten_update_def Let_def rewrite_status_def)

lemma flatten_step_inside:
  "inside (snd (flatten_step esc m s ev)) = inside s + open_containers [ev]"
  by (cases ev; cases "fst ev")
    (auto simp add: flatten_step_def flatten_update_def Let_def open_containers_def)

lemma flatten_step_tags:
  "tags (snd (flatten_step esc m s ev)) =
     (if fst ev = Start \<and> tag (snd ev) \<in> set containers then []
      else if fst ev = End \<and> tag (snd ev) = ''tag'' \<and> by_tags m \<and> inside s \<noteq> 0 \<and> started s < 0
        then tags s @ [case etext (snd ev) of None \<Rightarrow> '''' | Some t \<Rightarrow> t]
      else tags s)"
  by (cases ev; cases "fst ev")
    (auto simp add: flatten_step_def flatten_update_def Let_def containers_def)

lemma flatten_step_tag_close:
  "fst ev = End \<Longrightarrow> tag (snd ev) = ''tag'' \<Longrightarrow> by_tags m \<Longrightarrow> inside s \<noteq> 0 \<Longrightarrow> started s < 0 \<Longrightarrow>
   started (snd (flatten_step esc m s ev))
     = (if tags_match m (tags s @ [case etext (snd ev) of None \<Rightarrow> '''' | Some t \<Rightarrow> t]) then 0
        else started s)"
  by (cases ev; cases "fst ev")
    (auto simp add: flatten_step_def flatten_update_def Let_def containers_def)

lemma flatten_update_start_flattening:
  "0 \<le> started s \<Longrightarrow> tag elem \<in> set containers \<Longrightarrow>
   flatten_update esc m s (Start, elem)
     = (s\<lparr>inside := inside s + 1, started := started s + 1, tags := []\<rparr>, elem)"
  by (simp add: flatten_update_def Let_def)

lemma flatten_update_rewrites:
  "snd (flatten_update esc m s ev) \<noteq> snd ev \<Longrightarrow>
   started s = 0 \<and> fst ev = End \<and> tag (snd ev) = ''status''
   \<and> snd (flatten_update esc m s ev)
       = (snd ev)\<lparr>etext := Some (create_flattened_message esc (etext (snd ev)))\<rparr>"
  by (cases ev; cases "fst ev") (auto simp add: flatten_update_def Let_def split: if_splits)

subsection \<open>Subtrees while flattening\<close>

text \<open>
  While the counter \<open>started\<close> is positive, the filter yields of a subtree its message
  nodes only; while it is zero, it yields what \<open>flat_events\<close> describes. In both cases
  the counters \<open>started\<close> and \<open>inside\<close> are the same after the subtree as before it.
\<close>

lemma flatten_deep_forest:
  assumes "\<And>t s. t \<in> set ts \<Longrightarrow> 0 < started s \<Longrightarrow>
             yielded (flatten_loop esc m s (events t)) = msg_events t
             \<and> started (flatten_state_after esc m s (events t)) = started s
             \<and> inside (flatten_state_after esc m s (events t)) = inside s"
    and "0 < started s"
  shows "yielded (flatten_loop esc m s (concat (map events ts))) = concat (map msg_events ts)
         \<and> started (flatten_state_after esc m s (concat (map events ts))) = started s
         \<and> inside (flatten_state_after esc m s (concat (map events ts))) = inside s"
  using assms
  by (induction ts arbitrary: s)
    (simp_all add: flatten_loop_append flatten_state_after_append yielded_append)

lemma flatten_deep_tree:
  "0 < started s \<Longrightarrow>
   yielded (flatten_loop esc m s (events t)) = msg_events t
   \<and> started (flatten_state_after esc m s (events t)) = started s
   \<and> inside (flatten_state_after esc m s (events t)) = inside s"
proof (induction t arbitrary: s)
  case (Node elem children)
  show ?case
  proof (cases "tag elem \<in> set containers")
    case True
    let ?s1 = "s\<lparr>inside := inside s + 1, started := started s + 1, tags := []\<rparr>"
    let ?s2 = "flatten_state_after esc m ?s1 (concat (map events children))"
    have pos: "0 < started ?s1" using Node.prems by simp
    from flatten_deep_forest [of children esc m ?s1, OF Node.IH pos]
    have inner: "yielded (flatten_loop esc m ?s1 (concat (map events children)))
                   = concat (map msg_events children)"
      and st: "started ?s2 = started s + 1" and ins: "inside ?s2 = inside s + 1"
      by simp_all
    from st Node.prems have pos2: "0 < started ?s2" by simp
    from Node.prems have nn: "0 \<le> started s" by simp
    show ?thesis
      using True inner st ins msg_not_container [OF True] Node.prems
      by (simp add: step_start_container_flattening
          step_end_container_flattening
          flatten_loop_append flatten_state_after_append yielded_append)
  next
    case False
    let ?s2 = "flatten_state_after esc m s (concat (map events children))"
    from flatten_deep_forest [of children esc m s, OF Node.IH Node.prems]
    have inner: "yielded (flatten_loop esc m s (concat (map events children)))
                   = concat (map msg_events children)"
      and st: "started ?s2 = started s" and ins: "inside ?s2 = inside s"
      by simp_all
    from st Node.prems have nn2: "0 \<le> started ?s2" and ne: "started ?s2 \<noteq> 0"
      and nle: "\<not> started ?s2 \<le> 0" by simp_all
    from Node.prems have nle1: "\<not> started s \<le> 0" by simp
    show ?thesis
      using False inner st ins ne nle nle1
      by (simp add: step_start_other step_end_other_flattening
          flatten_loop_append flatten_state_after_append yielded_append)
  qed
qed

lemma flatten_level_forest:
  assumes "\<And>t s. t \<in> set ts \<Longrightarrow> started s = 0 \<Longrightarrow>
             yielded (flatten_loop esc m s (events t)) = flat_events esc t
             \<and> started (flatten_state_after esc m s (events t)) = 0
             \<and> inside (flatten_state_after esc m s (events t)) = inside s"
    and "started s = 0"
  shows "yielded (flatten_loop esc m s (concat (map events ts)))
           = concat (map (flat_events esc) ts)
         \<and> started (flatten_state_after esc m s (concat (map events ts))) = 0
         \<and> inside (flatten_state_after esc m s (concat (map events ts))) = inside s"
  using assms
  by (induction ts arbitrary: s)
    (simp_all add: flatten_loop_append flatten_state_after_append yielded_append)

lemma flatten_level_tree:
  "started s = 0 \<Longrightarrow>
   yielded (flatten_loop esc m s (events t)) = flat_events esc t
   \<and> started (flatten_state_after esc m s (events t)) = 0
   \<and> inside (flatten_state_after esc m s (events t)) = inside s"
proof (induction t arbitrary: s)
  case (Node elem children)
  show ?case
  proof (cases "tag elem \<in> set containers")
    case True
    let ?s1 = "s\<lparr>inside := inside s + 1, started := started s + 1, tags := []\<rparr>"
    let ?s2 = "flatten_state_after esc m ?s1 (concat (map events children))"
    have pos: "0 < started ?s1" using Node.prems by simp
    from flatten_deep_forest [of children esc m ?s1] flatten_deep_tree pos
    have inner: "yielded (flatten_loop esc m ?s1 (concat (map events children)))
                   = concat (map msg_events children)"
      and st: "started ?s2 = started s + 1" and ins: "inside ?s2 = inside s + 1"
      by simp_all
    from st Node.prems have pos2: "0 < started ?s2" by simp
    from Node.prems have nn: "0 \<le> started s" by simp
    show ?thesis
      using True inner st ins msg_not_container [OF True] Node.prems
      by (simp add: step_start_container_flattening
          step_end_container_flattening
          flatten_loop_append flatten_state_after_append yielded_append)
  next
    case False
    let ?s2 = "flatten_state_after esc m s (concat (map events children))"
    from flatten_level_forest [of children esc m s, OF Node.IH Node.prems]
    have inner: "yielded (flatten_loop esc m s (concat (map events children)))
                   = concat (map (flat_events esc) children)"
      and st: "started ?s2 = 0" and ins: "inside ?s2 = inside s"
      by simp_all
    from st have nn2: "0 \<le> started ?s2" by simp
    show ?thesis
      using False inner st ins Node.prems
      by (simp add: step_start_other step_end_other_flattening
          flatten_loop_append flatten_state_after_append yielded_append)
  qed
qed

lemma flatten_flattening_tree:
  "0 \<le> started s \<Longrightarrow>
   yielded (flatten_loop esc m s (events t))
     = (if started s = 0 then flat_events esc t else msg_events t)
   \<and> started (flatten_state_after esc m s (events t)) = started s"
  using flatten_level_tree [of s esc m t] flatten_deep_tree [of s esc m t]
  by (cases "started s = 0") auto

lemma flatten_matched_container:
  assumes neg: "started s < 0" and cont: "tag elem \<in> set containers" and trig: "triggers m elem"
  shows "yielded (flatten_loop esc m s (events (Node elem children)))
           = (Start, elem) # concat (map (flat_events esc) children) @ [(End, elem)]
         \<and> started (flatten_state_after esc m s (events (Node elem children))) = - 1
         \<and> inside (flatten_state_after esc m s (events (Node elem children))) = inside s"
proof -
  let ?s1 = "s\<lparr>inside := inside s + 1, started := 0, tags := []\<rparr>"
  let ?s2 = "flatten_state_after esc m ?s1 (concat (map events children))"
  have z: "started ?s1 = 0" by simp
  from flatten_level_forest [of children esc m ?s1] flatten_level_tree z
  have inner: "yielded (flatten_loop esc m ?s1 (concat (map events children)))
                 = concat (map (flat_events esc) children)"
    and st: "started ?s2 = 0" and ins: "inside ?s2 = inside s + 1"
    by simp_all
  show ?thesis
    using inner st ins neg cont trig
    by (simp add: step_start_container_trigger
        step_end_container_level
        flatten_loop_append flatten_state_after_append yielded_append)
qed

lemma msg_events_only_msg: "ev \<in> set (msg_events t) \<Longrightarrow> tag (snd ev) = ''msg''"
  by (induction t) (auto split: if_splits)

subsection \<open>Whole streams\<close>

lemma flatten_loop_preserves_msg:
  "filter (\<lambda>ev. tag (snd ev) = ''msg'') (yielded (flatten_loop esc m s evs))
     = filter (\<lambda>ev. tag (snd ev) = ''msg'') evs"
proof (induction evs arbitrary: s)
  case Nil
  then show ?case by simp
next
  case (Cons ev evs)
  obtain act s' where st: "flatten_step esc m s ev = (act, s')"
    by (cases "flatten_step esc m s ev")
  show ?case
  proof (cases "tag (snd ev) = ''msg''")
    case True
    with flatten_step_msg [of ev esc m s] st have "act = Yield ev" by simp
    with True st Cons.IH [of s'] show ?thesis by simp
  next
    case False
    from flatten_step_action [of esc m s ev] st
    consider "act = Yield ev" | "act = Yield (End, rewrite_status esc (snd ev))"
      | "act = Clear (snd ev)"
      by auto
    then show ?thesis
      using False st Cons.IH [of s']
      by cases (simp_all add: rewrite_status_def)
  qed
qed

lemma flatten_loop_action:
  "i < length evs \<Longrightarrow>
   flatten_loop esc m s evs ! i
     \<in> {Yield (evs ! i), Yield (End, rewrite_status esc (snd (evs ! i))), Clear (snd (evs ! i))}"
  using flatten_step_action [of esc m "flatten_state_after esc m s (take i evs)" "evs ! i"]
  by (auto simp add: flatten_loop_nth)

lemma open_containers_Cons:
  "open_containers (ev # evs) = open_containers [ev] + open_containers evs"
  by (simp add: open_containers_def)

lemma flatten_state_after_inside:
  "inside (flatten_state_after esc m s evs) = inside s + open_containers evs"
proof (induction evs arbitrary: s)
  case Nil
  then show ?case by (simp add: open_containers_def)
next
  case (Cons ev evs)
  from Cons.IH [of "snd (flatten_step esc m s ev)"] flatten_step_inside [of esc m s ev]
    open_containers_Cons [of ev evs]
  show ?case by simp
qed

subsection \<open>Subtrees while not flattening\<close>

text \<open>
  While the filter is not flattening, it yields every event of a subtree as it is and is
  not flattening after it, when no container of the subtree matches by name or type and
  no list of the texts of its \<open>tag\<close> elements and of the tags accumulated before it
  matches, or when the subtree has no \<open>tag\<close> element at all.
\<close>

lemma no_tag_match_mono:
  "no_tag_match m xs \<Longrightarrow> set ys \<subseteq> set xs \<Longrightarrow> no_tag_match m ys"
  by (auto simp add: no_tag_match_def)

lemma step_end_tag_idle:
  "started s < 0 \<Longrightarrow> tag elem = ''tag'' \<Longrightarrow>
   (by_tags m \<and> inside s \<noteq> 0 \<longrightarrow> \<not> tags_match m (tags s @ [tag_text elem])) \<Longrightarrow>
   flatten_step esc m s (End, elem) =
     (Yield (End, elem),
      if by_tags m \<and> inside s \<noteq> 0 then s\<lparr>tags := tags s @ [tag_text elem]\<rparr> else s)"
  by (auto simp add: flatten_step_def flatten_update_def Let_def containers_def tag_text_def)

lemma idle_forest:
  assumes "\<And>t s. t \<in> set ts \<Longrightarrow> started s < 0 \<Longrightarrow> no_trigger m t \<Longrightarrow>
             no_tag_match m (tags s @ tag_texts t) \<Longrightarrow>
             yielded (flatten_loop esc m s (events t)) = events t
             \<and> started (flatten_state_after esc m s (events t)) = started s
             \<and> inside (flatten_state_after esc m s (events t)) = inside s
             \<and> set (tags (flatten_state_after esc m s (events t)))
                 \<subseteq> set (tags s) \<union> set (tag_texts t)"
    and "started s < 0"
    and "list_all (no_trigger m) ts"
    and "no_tag_match m (tags s @ concat (map tag_texts ts))"
  shows "yielded (flatten_loop esc m s (concat (map events ts))) = concat (map events ts)
         \<and> started (flatten_state_after esc m s (concat (map events ts))) = started s
         \<and> inside (flatten_state_after esc m s (concat (map events ts))) = inside s
         \<and> set (tags (flatten_state_after esc m s (concat (map events ts))))
             \<subseteq> set (tags s) \<union> set (concat (map tag_texts ts))"
  using assms
proof (induction ts arbitrary: s)
  case Nil
  then show ?case by simp
next
  case (Cons t ts)
  let ?s1 = "flatten_state_after esc m s (events t)"
  have nt: "no_trigger m t" and nts: "list_all (no_trigger m) ts"
    using Cons.prems(3) by simp_all
  have m1: "no_tag_match m (tags s @ tag_texts t)"
    using Cons.prems(4) by (rule no_tag_match_mono) auto
  from Cons.prems(1) [of t s] Cons.prems(2) nt m1
  have h: "yielded (flatten_loop esc m s (events t)) = events t"
    and st: "started ?s1 = started s" and ins: "inside ?s1 = inside s"
    and tg: "set (tags ?s1) \<subseteq> set (tags s) \<union> set (tag_texts t)"
    by simp_all
  have m2: "no_tag_match m (tags ?s1 @ concat (map tag_texts ts))"
    using Cons.prems(4) by (rule no_tag_match_mono) (use tg in auto)
  have neg: "started ?s1 < 0" using st Cons.prems(2) by simp
  from Cons.IH [of ?s1, OF _ neg nts m2] Cons.prems(1)
  have r: "yielded (flatten_loop esc m ?s1 (concat (map events ts))) = concat (map events ts)"
    and rst: "started (flatten_state_after esc m ?s1 (concat (map events ts))) = started ?s1"
    and rins: "inside (flatten_state_after esc m ?s1 (concat (map events ts))) = inside ?s1"
    and rtg: "set (tags (flatten_state_after esc m ?s1 (concat (map events ts))))
                \<subseteq> set (tags ?s1) \<union> set (concat (map tag_texts ts))"
    by simp_all
  from h st ins tg r rst rins rtg show ?case
    by (auto simp add: flatten_loop_append flatten_state_after_append yielded_append)
qed

lemma idle_tree:
  "started s < 0 \<Longrightarrow> no_trigger m t \<Longrightarrow> no_tag_match m (tags s @ tag_texts t) \<Longrightarrow>
   yielded (flatten_loop esc m s (events t)) = events t
   \<and> started (flatten_state_after esc m s (events t)) = started s
   \<and> inside (flatten_state_after esc m s (events t)) = inside s
   \<and> set (tags (flatten_state_after esc m s (events t))) \<subseteq> set (tags s) \<union> set (tag_texts t)"
proof (induction t arbitrary: s)
  case (Node elem children)
  have nts: "list_all (no_trigger m) children"
    using Node.prems(2) by simp
  show ?case
  proof (cases "tag elem \<in> set containers")
    case True
    then have nt: "\<not> triggers m elem" and ntag: "tag elem \<noteq> ''tag''"
      using Node.prems(2) by (auto simp add: containers_def)
    let ?s1 = "s\<lparr>inside := inside s + 1, tags := []\<rparr>"
    let ?s2 = "flatten_state_after esc m ?s1 (concat (map events children))"
    have neg: "started ?s1 < 0" using Node.prems(1) by simp
    have m1: "no_tag_match m (tags ?s1 @ concat (map tag_texts children))"
      using Node.prems(3) by (rule no_tag_match_mono) auto
    from idle_forest [of children m esc ?s1, OF Node.IH neg nts m1]
    have inner: "yielded (flatten_loop esc m ?s1 (concat (map events children)))
                   = concat (map events children)"
      and st: "started ?s2 = started s" and ins: "inside ?s2 = inside s + 1"
      and tg: "set (tags ?s2) \<subseteq> set (concat (map tag_texts children))"
      by simp_all
    from st Node.prems(1) have neg2: "started ?s2 < 0" by simp
    show ?thesis
      using True nt ntag inner st ins tg Node.prems(1) neg2
      by (auto simp add: step_start_container_idle step_end_container_idle
          flatten_loop_append flatten_state_after_append yielded_append)
  next
    case False
    let ?s2 = "flatten_state_after esc m s (concat (map events children))"
    have m1: "no_tag_match m (tags s @ concat (map tag_texts children))"
      using Node.prems(3) by (rule no_tag_match_mono) auto
    from idle_forest [of children m esc s, OF Node.IH Node.prems(1) nts m1]
    have inner: "yielded (flatten_loop esc m s (concat (map events children)))
                   = concat (map events children)"
      and st: "started ?s2 = started s" and ins: "inside ?s2 = inside s"
      and tg: "set (tags ?s2) \<subseteq> set (tags s) \<union> set (concat (map tag_texts children))"
      by simp_all
    from st Node.prems(1) have neg2: "started ?s2 < 0" by simp
    have start: "flatten_step esc m s (Start, elem) = (Yield (Start, elem), s)"
      using False Node.prems(1) by (simp add: step_start_other)
    show ?thesis
    proof (cases "tag elem = ''tag''")
      case True
      have nm: "by_tags m \<and> inside ?s2 \<noteq> 0 \<longrightarrow> \<not> tags_match m (tags ?s2 @ [tag_text elem])"
      proof
        assume b: "by_tags m \<and> inside ?s2 \<noteq> 0"
        have "set (tags ?s2 @ [tag_text elem]) \<subseteq> set (tags s @ tag_texts (Node elem children))"
          using tg True by auto
        with Node.prems(3) b show "\<not> tags_match m (tags ?s2 @ [tag_text elem])"
          unfolding no_tag_match_def by blast
      qed
      from step_end_tag_idle [OF neg2 True nm, of esc]
      have fin: "flatten_step esc m ?s2 (End, elem) =
          (Yield (End, elem),
           if by_tags m \<and> inside ?s2 \<noteq> 0 then ?s2\<lparr>tags := tags ?s2 @ [tag_text elem]\<rparr> else ?s2)" .
      show ?thesis
        using True inner st ins tg start fin
        by (auto simp add: flatten_loop_append flatten_state_after_append yielded_append)
    next
      case nt: False
      have fin: "flatten_step esc m ?s2 (End, elem) = (Yield (End, elem), ?s2)"
        using neg2 False nt by (simp add: step_end_other_idle)
      show ?thesis
        using nt inner st ins tg start fin
        by (auto simp add: flatten_loop_append flatten_state_after_append yielded_append)
    qed
  qed
qed

lemma idle_trees:
  "started s < 0 \<Longrightarrow> list_all (no_trigger m) ts \<Longrightarrow>
   no_tag_match m (tags s @ concat (map tag_texts ts)) \<Longrightarrow>
   yielded (flatten_loop esc m s (concat (map events ts))) = concat (map events ts)
   \<and> started (flatten_state_after esc m s (concat (map events ts))) = started s
   \<and> inside (flatten_state_after esc m s (concat (map events ts))) = inside s
   \<and> set (tags (flatten_state_after esc m s (concat (map events ts))))
       \<subseteq> set (tags s) \<union> set (concat (map tag_texts ts))"
  by (rule idle_forest) (simp_all add: idle_tree)

lemma tagless_forest:
  assumes "\<And>t s. t \<in> set ts \<Longrightarrow> started s < 0 \<Longrightarrow> no_trigger m t \<Longrightarrow>
             (\<not> by_tags m \<or> tag_texts t = []) \<Longrightarrow>
             yielded (flatten_loop esc m s (events t)) = events t
             \<and> started (flatten_state_after esc m s (events t)) = started s
             \<and> inside (flatten_state_after esc m s (events t)) = inside s"
    and "started s < 0"
    and "list_all (no_trigger m) ts"
    and "\<not> by_tags m \<or> concat (map tag_texts ts) = []"
  shows "yielded (flatten_loop esc m s (concat (map events ts))) = concat (map events ts)
         \<and> started (flatten_state_after esc m s (concat (map events ts))) = started s
         \<and> inside (flatten_state_after esc m s (concat (map events ts))) = inside s"
  using assms
proof (induction ts arbitrary: s)
  case Nil
  then show ?case by simp
next
  case (Cons t ts)
  let ?s1 = "flatten_state_after esc m s (events t)"
  have nt: "no_trigger m t" and nts: "list_all (no_trigger m) ts"
    using Cons.prems(3) by simp_all
  have e1: "\<not> by_tags m \<or> tag_texts t = []"
    and e2: "\<not> by_tags m \<or> concat (map tag_texts ts) = []"
    using Cons.prems(4) by simp_all
  have mem: "t \<in> set (t # ts)" by simp
  from Cons.prems(1) [OF mem Cons.prems(2) nt e1]
  have h: "yielded (flatten_loop esc m s (events t)) = events t"
    and st: "started ?s1 = started s" and ins: "inside ?s1 = inside s"
    by blast+
  have neg: "started ?s1 < 0" using st Cons.prems(2) by simp
  have sub: "yielded (flatten_loop esc m s' (events t')) = events t'
             \<and> started (flatten_state_after esc m s' (events t')) = started s'
             \<and> inside (flatten_state_after esc m s' (events t')) = inside s'"
    if "t' \<in> set ts" "started s' < 0" "no_trigger m t'" "\<not> by_tags m \<or> tag_texts t' = []"
    for t' s'
  proof -
    from that(1) have "t' \<in> set (t # ts)" by simp
    from Cons.prems(1) [OF this that(2) that(3) that(4)] show ?thesis .
  qed
  from Cons.IH [of ?s1, OF sub neg nts e2]
  have r: "yielded (flatten_loop esc m ?s1 (concat (map events ts))) = concat (map events ts)"
    and rst: "started (flatten_state_after esc m ?s1 (concat (map events ts))) = started ?s1"
    and rins: "inside (flatten_state_after esc m ?s1 (concat (map events ts))) = inside ?s1"
    by blast+
  from h st ins r rst rins show ?case
    by (simp add: flatten_loop_append flatten_state_after_append yielded_append)
qed

lemma step_end_other_quiet:
  "started s < 0 \<Longrightarrow> tag elem \<notin> set containers \<Longrightarrow> \<not> (by_tags m \<and> tag elem = ''tag'') \<Longrightarrow>
   flatten_step esc m s (End, elem) = (Yield (End, elem), s)"
  by (cases "by_tags m") (simp_all add: flatten_step_def flatten_update_def Let_def)

lemma tagless_tree:
  "started s < 0 \<Longrightarrow> no_trigger m t \<Longrightarrow> (\<not> by_tags m \<or> tag_texts t = []) \<Longrightarrow>
   yielded (flatten_loop esc m s (events t)) = events t
   \<and> started (flatten_state_after esc m s (events t)) = started s
   \<and> inside (flatten_state_after esc m s (events t)) = inside s"
proof (induction t arbitrary: s)
  case (Node elem children)
  have nts: "list_all (no_trigger m) children"
    using Node.prems(2) by simp
  have e: "\<not> by_tags m \<or> concat (map tag_texts children) = []"
    and q: "\<not> (by_tags m \<and> tag elem = ''tag'')"
    using Node.prems(3) by auto
  show ?case
  proof (cases "tag elem \<in> set containers")
    case True
    then have nt: "\<not> triggers m elem"
      using Node.prems(2) by auto
    let ?s1 = "s\<lparr>inside := inside s + 1, tags := []\<rparr>"
    let ?s2 = "flatten_state_after esc m ?s1 (concat (map events children))"
    have neg: "started ?s1 < 0" using Node.prems(1) by simp
    from tagless_forest [of children m esc ?s1, OF Node.IH neg nts e]
    have inner: "yielded (flatten_loop esc m ?s1 (concat (map events children)))
                   = concat (map events children)"
      and st: "started ?s2 = started s" and ins: "inside ?s2 = inside s + 1"
      by simp_all
    from st Node.prems(1) have neg2: "started ?s2 < 0" by simp
    show ?thesis
      using True nt inner st ins Node.prems(1) neg2
      by (simp add: step_start_container_idle step_end_container_idle
          flatten_loop_append flatten_state_after_append yielded_append)
  next
    case False
    let ?s2 = "flatten_state_after esc m s (concat (map events children))"
    from tagless_forest [of children m esc s, OF Node.IH Node.prems(1) nts e]
    have inner: "yielded (flatten_loop esc m s (concat (map events children)))
                   = concat (map events children)"
      and st: "started ?s2 = started s" and ins: "inside ?s2 = inside s"
      by simp_all
    from st Node.prems(1) have neg2: "started ?s2 < 0" by simp
    have start: "flatten_step esc m s (Start, elem) = (Yield (Start, elem), s)"
      using False Node.prems(1) by (simp add: step_start_other)
    have fin: "flatten_step esc m ?s2 (End, elem) = (Yield (End, elem), ?s2)"
      using neg2 False q by (rule step_end_other_quiet)
    show ?thesis
      using inner st ins start fin
      by (simp add: flatten_loop_append flatten_state_after_append yielded_append)
  qed
qed

lemma tagless_trees:
  "started s < 0 \<Longrightarrow> list_all (no_trigger m) ts \<Longrightarrow>
   (\<not> by_tags m \<or> concat (map tag_texts ts) = []) \<Longrightarrow>
   yielded (flatten_loop esc m s (concat (map events ts))) = concat (map events ts)
   \<and> started (flatten_state_after esc m s (concat (map events ts))) = started s
   \<and> inside (flatten_state_after esc m s (concat (map events ts))) = inside s"
proof (rule tagless_forest)
  fix t and s' :: flatten_state
  assume "started s' < 0" "no_trigger m t" "\<not> by_tags m \<or> tag_texts t = []"
  then show "yielded (flatten_loop esc m s' (events t)) = events t
      \<and> started (flatten_state_after esc m s' (events t)) = started s'
      \<and> inside (flatten_state_after esc m s' (events t)) = inside s'"
    by (rule tagless_tree)
qed

text \<open>
  While the filter is flattening, the accumulated tags are emptied by every container
  that opens and are otherwise left as they are.
\<close>

lemma flattening_tags_forest:
  assumes "\<And>t s. t \<in> set ts \<Longrightarrow> 0 \<le> started s \<Longrightarrow>
             tags (flatten_state_after esc m s (events t))
               = (if has_container t then [] else tags s)"
    and "0 \<le> started s"
  shows "tags (flatten_state_after esc m s (concat (map events ts)))
           = (if list_ex has_container ts then [] else tags s)"
  using assms
proof (induction ts arbitrary: s)
  case Nil
  then show ?case by simp
next
  case (Cons t ts)
  let ?s1 = "flatten_state_after esc m s (events t)"
  from flatten_flattening_tree [of s esc m t] Cons.prems(2)
  have st: "0 \<le> started ?s1" by simp
  from Cons.prems(1) [of t s] Cons.prems(2)
  have t1: "tags ?s1 = (if has_container t then [] else tags s)" by simp
  from Cons.IH [of ?s1, OF _ st] Cons.prems(1)
  have "tags (flatten_state_after esc m ?s1 (concat (map events ts)))
          = (if list_ex has_container ts then [] else tags ?s1)"
    by simp
  with t1 show ?case
    by (simp add: flatten_state_after_append)
qed

lemma flattening_started_forest:
  "0 \<le> started s \<Longrightarrow>
   started (flatten_state_after esc m s (concat (map events ts))) = started s"
proof (induction ts arbitrary: s)
  case Nil
  then show ?case by simp
next
  case (Cons t ts)
  from flatten_flattening_tree [of s esc m t] Cons.prems
  have "started (flatten_state_after esc m s (events t)) = started s" by simp
  with Cons.IH [of "flatten_state_after esc m s (events t)"] Cons.prems
  show ?case by (simp add: flatten_state_after_append)
qed

lemma flattening_tags_tree:
  "0 \<le> started s \<Longrightarrow>
   tags (flatten_state_after esc m s (events t)) = (if has_container t then [] else tags s)"
proof (induction t arbitrary: s)
  case (Node elem children)
  show ?case
  proof (cases "tag elem \<in> set containers")
    case True
    let ?s1 = "s\<lparr>inside := inside s + 1, started := started s + 1, tags := []\<rparr>"
    let ?s2 = "flatten_state_after esc m ?s1 (concat (map events children))"
    have pos: "0 \<le> started ?s1" using Node.prems by simp
    from flattening_tags_forest [of children esc m ?s1, OF Node.IH pos]
    have tg: "tags ?s2 = []" by simp
    from flattening_started_forest [OF pos, of esc m children] Node.prems
    have st: "0 < started ?s2" by simp
    show ?thesis
      using True tg st Node.prems
      by (simp add: step_start_container_flattening step_end_container_flattening
          flatten_state_after_append)
  next
    case False
    let ?s2 = "flatten_state_after esc m s (concat (map events children))"
    from flattening_tags_forest [of children esc m s, OF Node.IH Node.prems]
    have tg: "tags ?s2 = (if list_ex has_container children then [] else tags s)" by simp
    from flattening_started_forest [OF Node.prems, of esc m children] Node.prems
    have st: "0 \<le> started ?s2" by simp
    show ?thesis
      using False tg st Node.prems
      by (simp add: step_start_other step_end_other_flattening flatten_state_after_append)
  qed
qed

lemma flattening_tags_trees:
  "0 \<le> started s \<Longrightarrow>
   tags (flatten_state_after esc m s (concat (map events ts)))
     = (if list_ex has_container ts then [] else tags s)"
  by (rule flattening_tags_forest) (simp_all add: flattening_tags_tree)

lemma flat_trees:
  "started s = 0 \<Longrightarrow>
   yielded (flatten_loop esc m s (concat (map events ts))) = concat (map (flat_events esc) ts)
   \<and> started (flatten_state_after esc m s (concat (map events ts))) = 0
   \<and> inside (flatten_state_after esc m s (concat (map events ts))) = inside s"
  by (rule flatten_level_forest) (simp_all add: flatten_level_tree)

subsection \<open>A matching container in a container that does not match\<close>

lemma matched_container_tags:
  assumes neg: "started s < 0" and cont: "tag elem \<in> set containers" and trig: "triggers m elem"
  shows "tags (flatten_state_after esc m s (events (Node elem children))) = []"
proof -
  let ?s1 = "s\<lparr>inside := inside s + 1, started := 0, tags := []\<rparr>"
  let ?s2 = "flatten_state_after esc m ?s1 (concat (map events children))"
  have z: "started ?s1 = 0" by simp
  then have nn: "0 \<le> started ?s1" by simp
  from flat_trees [OF z, of esc m children] have st: "started ?s2 = 0" by simp
  from flattening_tags_trees [OF nn, of esc m children] have tg: "tags ?s2 = []" by simp
  show ?thesis
    using st tg neg cont trig
    by (simp add: step_start_container_trigger step_end_container_level
        flatten_state_after_append)
qed

lemma idle_container:
  assumes neg: "started s < 0" and cont: "tag a \<in> set containers" and nt: "\<not> triggers m a"
    and evs: "started (flatten_state_after esc m (s\<lparr>inside := inside s + 1, tags := []\<rparr>) evs) < 0"
  shows "yielded (flatten_loop esc m s ((Start, a) # evs @ [(End, a)]))
           = (Start, a) # yielded (flatten_loop esc m (s\<lparr>inside := inside s + 1, tags := []\<rparr>) evs)
             @ [(End, a)]"
  using assms
  by (simp add: step_start_container_idle step_end_container_idle
      flatten_loop_append flatten_state_after_append yielded_append)

lemma flatten_nested_container:
  assumes neg: "started s < 0"
    and a: "tag a \<in> set containers" "\<not> triggers m a"
    and b: "tag b \<in> set containers" "triggers m b"
    and quiet: "list_all (no_trigger m) (pre @ post)"
    and nm: "no_tag_match m (concat (map tag_texts pre))"
      "no_tag_match m (concat (map tag_texts post))"
  shows "yielded (flatten_loop esc m s (events (Node a (pre @ [Node b kids] @ post))))
           = (Start, a) # events_forest pre
             @ (Start, b) # concat (map (flat_events esc) kids) @ [(End, b)]
             @ events_forest post @ [(End, a)]"
proof -
  let ?P = "concat (map events pre)"
  let ?M = "events (Node b kids)"
  let ?Q = "concat (map events post)"
  let ?s1 = "s\<lparr>inside := inside s + 1, tags := []\<rparr>"
  let ?s2 = "flatten_state_after esc m ?s1 ?P"
  let ?s3 = "flatten_state_after esc m ?s2 ?M"
  let ?s4 = "flatten_state_after esc m ?s3 ?Q"
  have q1: "list_all (no_trigger m) pre" and q2: "list_all (no_trigger m) post"
    using quiet by simp_all
  have n1: "started ?s1 < 0" using neg by simp
  have m1: "no_tag_match m (tags ?s1 @ concat (map tag_texts pre))" using nm(1) by simp
  from idle_trees [OF n1 q1 m1, of esc]
  have y1: "yielded (flatten_loop esc m ?s1 ?P) = ?P" and n2: "started ?s2 < 0"
    using neg by simp_all
  from flatten_matched_container [OF n2 b, of esc kids]
  have y2: "yielded (flatten_loop esc m ?s2 ?M)
      = (Start, b) # concat (map (flat_events esc) kids) @ [(End, b)]"
    and n3: "started ?s3 < 0"
    by simp_all
  from matched_container_tags [OF n2 b, of esc kids] have t3: "tags ?s3 = []" .
  have m3: "no_tag_match m (tags ?s3 @ concat (map tag_texts post))" using nm(2) t3 by simp
  from idle_trees [OF n3 q2 m3, of esc]
  have y3: "yielded (flatten_loop esc m ?s3 ?Q) = ?Q" and n4: "started ?s4 < 0"
    using n3 by simp_all
  have split: "events (Node a (pre @ [Node b kids] @ post)) = (Start, a) # (?P @ ?M @ ?Q) @ [(End, a)]"
    by simp
  have st: "flatten_state_after esc m ?s1 (?P @ ?M @ ?Q) = ?s4"
    by (simp only: flatten_state_after_append)
  have body: "yielded (flatten_loop esc m ?s1 (?P @ ?M @ ?Q))
      = yielded (flatten_loop esc m ?s1 ?P) @ yielded (flatten_loop esc m ?s2 ?M)
        @ yielded (flatten_loop esc m ?s3 ?Q)"
    by (simp only: flatten_loop_append flatten_state_after_append yielded_append)
  from n4 st have n4': "started (flatten_state_after esc m ?s1 (?P @ ?M @ ?Q)) < 0" by simp
  have "yielded (flatten_loop esc m s ((Start, a) # (?P @ ?M @ ?Q) @ [(End, a)]))
      = (Start, a) # yielded (flatten_loop esc m ?s1 (?P @ ?M @ ?Q)) @ [(End, a)]"
    using neg a n4' by (rule idle_container)
  also have "\<dots> = (Start, a) # (?P @ ((Start, b) # concat (map (flat_events esc) kids) @ [(End, b)])
        @ ?Q) @ [(End, a)]"
    by (simp only: body y1 y2 y3)
  finally show ?thesis
    unfolding split by (simp add: events_forest_def)
qed

lemma flatten_nested_container_by_tag:
  assumes neg: "started s < 0" and ins: "0 \<le> inside s"
    and a: "tag a \<in> set containers" "\<not> triggers m a"
    and b: "tag b \<in> set containers" "\<not> triggers m b"
    and tg: "tag tg = ''tag''" "by_tags m"
    and quiet: "list_all (no_trigger m) (pre @ before @ post)"
    and nm: "no_tag_match m (concat (map tag_texts pre))"
      "no_tag_match m (concat (map tag_texts before))"
    and hit: "\<forall>acc. set acc \<subseteq> set (concat (map tag_texts before))
               \<longrightarrow> tags_match m (acc @ [tag_text tg])"
    and post: "concat (map tag_texts post) = []
               \<or> list_ex has_container kids \<and> no_tag_match m (concat (map tag_texts post))"
  shows "yielded (flatten_loop esc m s
           (events (Node a (pre @ [Node b (before @ [Node tg []] @ kids)] @ post))))
           = (Start, a) # events_forest pre
             @ (Start, b) # events_forest before @ [(Start, tg), (End, tg)]
               @ concat (map (flat_events esc) kids) @ [(End, b)]
             @ events_forest post @ [(End, a)]"
proof -
  let ?P = "concat (map events pre)"
  let ?B = "concat (map events before)"
  let ?K = "concat (map events kids)"
  let ?Q = "concat (map events post)"
  let ?M = "(Start, b) # ?B @ [(Start, tg), (End, tg)] @ ?K @ [(End, b)]"
  let ?s1 = "s\<lparr>inside := inside s + 1, tags := []\<rparr>"
  let ?s2 = "flatten_state_after esc m ?s1 ?P"
  let ?s3 = "?s2\<lparr>inside := inside ?s2 + 1, tags := []\<rparr>"
  let ?s4 = "flatten_state_after esc m ?s3 ?B"
  let ?s5 = "?s4\<lparr>tags := tags ?s4 @ [tag_text tg], started := 0\<rparr>"
  let ?s6 = "flatten_state_after esc m ?s5 ?K"
  let ?s7 = "?s6\<lparr>inside := inside ?s6 - 1, started := - 1\<rparr>"
  let ?s8 = "flatten_state_after esc m ?s7 ?Q"
  have q1: "list_all (no_trigger m) pre" and q2: "list_all (no_trigger m) before"
    and q3: "list_all (no_trigger m) post"
    using quiet by simp_all
  have ntg: "tag tg \<notin> set containers" using tg(1) by (simp add: containers_def)
  have n1: "started ?s1 < 0" using neg by simp
  have m1: "no_tag_match m (tags ?s1 @ concat (map tag_texts pre))" using nm(1) by simp
  from idle_trees [OF n1 q1 m1, of esc]
  have y1: "yielded (flatten_loop esc m ?s1 ?P) = ?P" and n2: "started ?s2 < 0"
    and i2: "inside ?s2 = inside s + 1"
    using neg by simp_all
  have n3: "started ?s3 < 0" using n2 by simp
  have m3: "no_tag_match m (tags ?s3 @ concat (map tag_texts before))" using nm(2) by simp
  from idle_trees [OF n3 q2 m3, of esc]
  have y4: "yielded (flatten_loop esc m ?s3 ?B) = ?B" and n4: "started ?s4 < 0"
    and i4: "inside ?s4 = inside s + 2"
    and t4: "set (tags ?s4) \<subseteq> set (concat (map tag_texts before))"
    using n3 i2 by simp_all
  from i4 ins have i4': "inside ?s4 \<noteq> 0" by simp
  from hit t4 have match: "tags_match m (tags ?s4 @ [tag_text tg])" by blast
  have step_b: "flatten_step esc m ?s2 (Start, b) = (Yield (Start, b), ?s3)"
    using n2 b by (simp add: step_start_container_idle)
  have step_tg1: "flatten_step esc m ?s4 (Start, tg) = (Yield (Start, tg), ?s4)"
    using n4 ntg by (simp add: step_start_other)
  have step_tg2: "flatten_step esc m ?s4 (End, tg) = (Yield (End, tg), ?s5)"
    using step_end_tag_trigger [OF n4 tg(2) i4' tg(1), of esc] match
    by (simp add: tag_text_def)
  have z5: "started ?s5 = 0" by simp
  from flat_trees [OF z5, of esc m kids]
  have y6: "yielded (flatten_loop esc m ?s5 ?K) = concat (map (flat_events esc) kids)"
    and z6: "started ?s6 = 0"
    by simp_all
  have step_b2: "flatten_step esc m ?s6 (End, b) = (Yield (End, b), ?s7)"
    using z6 b(1) by (simp add: step_end_container_level)
  have n7: "started ?s7 < 0" by simp
  have t6: "tags ?s6 = (if list_ex has_container kids then [] else tags ?s5)"
    using flattening_tags_trees [of ?s5 esc m kids] by simp
  have yq: "yielded (flatten_loop esc m ?s7 ?Q) = ?Q \<and> started ?s8 < 0"
    using post
  proof
    assume "concat (map tag_texts post) = []"
    then have "\<not> by_tags m \<or> concat (map tag_texts post) = []" by simp
    from tagless_trees [OF n7 q3 this, of esc] show ?thesis by simp
  next
    assume h: "list_ex has_container kids \<and> no_tag_match m (concat (map tag_texts post))"
    with t6 have "tags ?s7 = []" by simp
    with h have "no_tag_match m (tags ?s7 @ concat (map tag_texts post))" by simp
    from idle_trees [OF n7 q3 this, of esc] show ?thesis by simp
  qed
  then have y8: "yielded (flatten_loop esc m ?s7 ?Q) = ?Q" and n8: "started ?s8 < 0"
    by simp_all
  have ym: "yielded (flatten_loop esc m ?s2 ?M)
      = (Start, b) # ?B @ [(Start, tg), (End, tg)] @ concat (map (flat_events esc) kids) @ [(End, b)]"
    and sm: "flatten_state_after esc m ?s2 ?M = ?s7"
    using step_b y4 step_tg1 step_tg2 y6 step_b2
    by (simp_all add: flatten_loop_append flatten_state_after_append yielded_append)
  have split: "events (Node a (pre @ [Node b (before @ [Node tg []] @ kids)] @ post))
      = (Start, a) # (?P @ ?M @ ?Q) @ [(End, a)]"
    by simp
  have st: "flatten_state_after esc m ?s1 (?P @ ?M @ ?Q) = ?s8"
    using sm by (simp only: flatten_state_after_append)
  have body: "yielded (flatten_loop esc m ?s1 (?P @ ?M @ ?Q))
      = yielded (flatten_loop esc m ?s1 ?P) @ yielded (flatten_loop esc m ?s2 ?M)
        @ yielded (flatten_loop esc m ?s7 ?Q)"
    using sm by (simp only: flatten_loop_append flatten_state_after_append yielded_append)
  from n8 st have n8': "started (flatten_state_after esc m ?s1 (?P @ ?M @ ?Q)) < 0" by simp
  have "yielded (flatten_loop esc m s ((Start, a) # (?P @ ?M @ ?Q) @ [(End, a)]))
      = (Start, a) # yielded (flatten_loop esc m ?s1 (?P @ ?M @ ?Q)) @ [(End, a)]"
    using neg a n8' by (rule idle_container)
  also have "\<dots> = (Start, a) # (?P @ ((Start, b) # ?B @ [(Start, tg), (End, tg)]
        @ concat (map (flat_events esc) kids) @ [(End, b)]) @ ?Q) @ [(End, a)]"
    by (simp only: body y1 ym y8)
  finally show ?thesis
    unfolding split by (simp add: events_forest_def)
qed

lemmas example_defs = loop_doc_def loop_body_def test_elem_def for_elem_def kw_elem_def
  msg_elem_def status_elem_def tag_elem_def

lemmas flatten_defs = flatten_keywords_def flatten_init_def flatten_step_def flatten_update_def
  Let_def containers_def for_matchers_of_def smoke_matchers_of_def

subsection \<open>Forwarding\<close>

text \<open>
  C3, as amended. The flattening filter yields an event if and only if, after the
  branch on the event has updated the counters, \<open>started\<close> is at most zero or the tag of
  the element is \<open>msg\<close>; otherwise it clears the element and the event is suppressed.
  The message events of any stream are all yielded, unchanged and in their order. For
  a container whose Open starts the flattening (the name or the type matcher matches it
  while the filter is not flattening), the filter yields the Open and the Close of the
  container, the nodes at its own level, and of every container below it the message
  nodes only. A container that is matched by its tags starts the flattening at the
  Close of the tag, and what was yielded before that event stays yielded.
\<close>

theorem flatten_keywords_forwarding:
  "(i < length evs \<longrightarrow>
      flatten_keywords esc gm evs fl ! i =
        (case flatten_update esc (gm fl)
                (flatten_state_after esc (gm fl) flatten_init (take i evs)) (evs ! i) of
           (s1, elem) \<Rightarrow>
             if started s1 \<le> 0 \<or> tag (snd (evs ! i)) = ''msg'' then Yield (fst (evs ! i), elem)
             else Clear (snd (evs ! i))))
   \<and> filter (\<lambda>ev. tag (snd ev) = ''msg'') (yielded (flatten_keywords esc gm evs fl))
       = filter (\<lambda>ev. tag (snd ev) = ''msg'') evs
   \<and> (started s < 0 \<and> tag elem \<in> set containers \<and> triggers m elem \<longrightarrow>
        yielded (flatten_loop esc m s (events (Node elem children)))
          = (Start, elem) # concat (map (flat_events esc) children) @ [(End, elem)])
   \<and> (tag c \<in> set containers \<longrightarrow> flat_events esc (Node c cs) = msg_events (Node c cs))
   \<and> (\<forall>ev \<in> set (msg_events t). tag (snd ev) = ''msg'')
   \<and> flatten_loop esc m s (xs @ ys)
       = flatten_loop esc m s xs @ flatten_loop esc m (flatten_state_after esc m s xs) ys
   \<and> (fst ev = End \<and> tag (snd ev) = ''tag'' \<and> by_tags m \<and> inside s \<noteq> 0 \<and> started s < 0
        \<and> tags_match m (tags s @ [case etext (snd ev) of None \<Rightarrow> '''' | Some txt \<Rightarrow> txt]) \<longrightarrow>
        fst (flatten_step esc m s ev) = Yield ev
        \<and> started (snd (flatten_step esc m s ev)) = 0)
   \<and> (started s = 0 \<longrightarrow>
        yielded (flatten_loop esc m s (events t)) = flat_events esc t
        \<and> started (flatten_state_after esc m s (events t)) = 0)"
proof -
  have a: "i < length evs \<longrightarrow>
      flatten_keywords esc gm evs fl ! i =
        (case flatten_update esc (gm fl)
                (flatten_state_after esc (gm fl) flatten_init (take i evs)) (evs ! i) of
           (s1, elem) \<Rightarrow>
             if started s1 \<le> 0 \<or> tag (snd (evs ! i)) = ''msg'' then Yield (fst (evs ! i), elem)
             else Clear (snd (evs ! i)))"
    by (simp add: flatten_keywords_def flatten_loop_nth flatten_step_decision)
  have b: "filter (\<lambda>ev. tag (snd ev) = ''msg'') (yielded (flatten_keywords esc gm evs fl))
       = filter (\<lambda>ev. tag (snd ev) = ''msg'') evs"
    by (simp add: flatten_keywords_def flatten_loop_preserves_msg)
  have c: "started s < 0 \<and> tag elem \<in> set containers \<and> triggers m elem \<longrightarrow>
        yielded (flatten_loop esc m s (events (Node elem children)))
          = (Start, elem) # concat (map (flat_events esc) children) @ [(End, elem)]"
    using flatten_matched_container [of s elem m esc children] by blast
  have d: "tag c \<in> set containers \<longrightarrow> flat_events esc (Node c cs) = msg_events (Node c cs)"
    by simp
  have e: "\<forall>ev \<in> set (msg_events t). tag (snd ev) = ''msg''"
    using msg_events_only_msg by blast
  have f: "flatten_loop esc m s (xs @ ys)
       = flatten_loop esc m s xs @ flatten_loop esc m (flatten_state_after esc m s xs) ys"
    by (rule flatten_loop_append)
  have g: "fst ev = End \<and> tag (snd ev) = ''tag'' \<and> by_tags m \<and> inside s \<noteq> 0 \<and> started s < 0
        \<and> tags_match m (tags s @ [case etext (snd ev) of None \<Rightarrow> '''' | Some txt \<Rightarrow> txt]) \<longrightarrow>
        fst (flatten_step esc m s ev) = Yield ev
        \<and> started (snd (flatten_step esc m s ev)) = 0"
    using step_end_tag_trigger [of s m "snd ev" esc] by (cases ev) auto
  have h: "started s = 0 \<longrightarrow>
        yielded (flatten_loop esc m s (events t)) = flat_events esc t
        \<and> started (flatten_state_after esc m s (events t)) = 0"
    using flatten_level_tree [of s esc m t] by blast
  from a b c d e f g h show ?thesis by blast
qed

text \<open>
  C3 at a test with a \<open>for\<close> loop that the type matcher matches: the status of the
  keyword inside the loop is cleared, its message is yielded, and of the loop there remain
  its two messages and its own status, rewritten. And at the Close of a matching tag
  inside a keyword, after which a status is yielded rewritten.
\<close>

theorem flatten_keywords_forwarding_witness:
  "(7::nat) < length (events loop_doc)
   \<and> flatten_keywords html_escape for_matchers_of (events loop_doc) [''FOR''] ! 7
       = Clear (status_elem ''inner'')
   \<and> flatten_keywords html_escape for_matchers_of (events loop_doc) [''FOR''] ! 5
       = Yield (Start, msg_elem ''m2'')
   \<and> started flatten_init < 0 \<and> tag for_elem \<in> set containers \<and> triggers for_matchers for_elem
   \<and> yielded (flatten_loop html_escape for_matchers flatten_init (events (Node for_elem loop_body)))
       = [(Start, for_elem), (Start, msg_elem ''m1''), (End, msg_elem ''m1''),
          (Start, msg_elem ''m2''), (End, msg_elem ''m2''),
          (Start, status_elem ''done''),
          (End, status_elem ''*HTML* done<hr><i>Content flattened.</i>''), (End, for_elem)]
   \<and> tag (kw_elem ''Log'') \<in> set containers
   \<and> flat_events html_escape (Node (kw_elem ''Log'') [Node (msg_elem ''m2'') [], Node (status_elem ''inner'') []])
       = [(Start, msg_elem ''m2''), (End, msg_elem ''m2'')]
   \<and> (Start, msg_elem ''m2'') \<in> set (msg_events (Node for_elem loop_body))
   \<and> tag (snd (Start, msg_elem ''m2'')) = ''msg''
   \<and> by_tags smoke_matchers \<and> tags_match smoke_matchers [''smoke'']
   \<and> flatten_step html_escape smoke_matchers \<lparr>started = - 1, tags = [], inside = 1\<rparr>
         (End, tag_elem ''smoke'')
       = (Yield (End, tag_elem ''smoke''), \<lparr>started = 0, tags = [''smoke''], inside = 1\<rparr>)
   \<and> yielded (flatten_loop html_escape smoke_matchers \<lparr>started = 0, tags = [''smoke''], inside = 1\<rparr>
         (events (Node (status_elem ''done'') [])))
       = [(Start, status_elem ''done''),
          (End, status_elem ''*HTML* done<hr><i>Content flattened.</i>'')]"
proof -
  let ?evs = "events loop_doc"
  let ?kw = "Node (kw_elem ''Log'') [Node (msg_elem ''m2'') [], Node (status_elem ''inner'') []]"
  let ?s = "\<lparr>started = - 1, tags = [], inside = 1\<rparr>"
  let ?lvl = "\<lparr>started = 0, tags = [''smoke''], inside = 1\<rparr>"
  let ?ev = "(End, tag_elem ''smoke'')"
  note th = flatten_keywords_forwarding [where esc = html_escape and gm = for_matchers_of
      and fl = "[''FOR'']" and evs = ?evs and s = flatten_init and elem = for_elem
      and m = for_matchers and children = loop_body and c = "kw_elem ''Log''"
      and cs = "[Node (msg_elem ''m2'') [], Node (status_elem ''inner'') []]"
      and t = "Node for_elem loop_body"]
  have l7: "(7::nat) < length ?evs" and l5: "(5::nat) < length ?evs"
    by (simp_all add: example_defs)
  have h3: "started flatten_init < 0 \<and> tag for_elem \<in> set containers \<and> triggers for_matchers for_elem"
    by (simp add: flatten_init_def for_elem_def containers_def triggers_def for_matchers_def)
  have h4: "tag (kw_elem ''Log'') \<in> set containers"
    by (simp add: kw_elem_def containers_def)
  have h5: "(Start, msg_elem ''m2'') \<in> set (msg_events (Node for_elem loop_body))"
    by (simp add: example_defs)
  from th [of 7] l7 have "flatten_keywords html_escape for_matchers_of ?evs [''FOR''] ! 7 =
        (case flatten_update html_escape (for_matchers_of [''FOR''])
                (flatten_state_after html_escape (for_matchers_of [''FOR'']) flatten_init (take 7 ?evs))
                (?evs ! 7) of
           (s1, elem) \<Rightarrow>
             if started s1 \<le> 0 \<or> tag (snd (?evs ! 7)) = ''msg'' then Yield (fst (?evs ! 7), elem)
             else Clear (snd (?evs ! 7)))"
    by blast
  also have "\<dots> = Clear (status_elem ''inner'')"
    by (simp add: example_defs flatten_defs for_matchers_def eval_nat_numeral)
  finally have c7: "flatten_keywords html_escape for_matchers_of ?evs [''FOR''] ! 7
      = Clear (status_elem ''inner'')" .
  from th [of 5] l5 have "flatten_keywords html_escape for_matchers_of ?evs [''FOR''] ! 5 =
        (case flatten_update html_escape (for_matchers_of [''FOR''])
                (flatten_state_after html_escape (for_matchers_of [''FOR'']) flatten_init (take 5 ?evs))
                (?evs ! 5) of
           (s1, elem) \<Rightarrow>
             if started s1 \<le> 0 \<or> tag (snd (?evs ! 5)) = ''msg'' then Yield (fst (?evs ! 5), elem)
             else Clear (snd (?evs ! 5)))"
    by blast
  also have "\<dots> = Yield (Start, msg_elem ''m2'')"
    by (simp add: example_defs flatten_defs for_matchers_def eval_nat_numeral)
  finally have c5: "flatten_keywords html_escape for_matchers_of ?evs [''FOR''] ! 5
      = Yield (Start, msg_elem ''m2'')" .
  from th [of 0] h3 have "yielded (flatten_loop html_escape for_matchers flatten_init
        (events (Node for_elem loop_body)))
      = (Start, for_elem) # concat (map (flat_events html_escape) loop_body) @ [(End, for_elem)]"
    by blast
  also have "\<dots> = [(Start, for_elem), (Start, msg_elem ''m1''), (End, msg_elem ''m1''),
          (Start, msg_elem ''m2''), (End, msg_elem ''m2''),
          (Start, status_elem ''done''),
          (End, status_elem ''*HTML* done<hr><i>Content flattened.</i>''), (End, for_elem)]"
    by (simp add: example_defs containers_def rewrite_status_def create_flattened_message_def
        startswith_def html_escape_def)
  finally have c3: "yielded (flatten_loop html_escape for_matchers flatten_init
        (events (Node for_elem loop_body)))
      = [(Start, for_elem), (Start, msg_elem ''m1''), (End, msg_elem ''m1''),
          (Start, msg_elem ''m2''), (End, msg_elem ''m2''),
          (Start, status_elem ''done''),
          (End, status_elem ''*HTML* done<hr><i>Content flattened.</i>''), (End, for_elem)]" .
  from th [of 0] h4 have "flat_events html_escape ?kw = msg_events ?kw"
    by blast
  also have "\<dots> = [(Start, msg_elem ''m2''), (End, msg_elem ''m2'')]"
    by (simp add: example_defs)
  finally have c4: "flat_events html_escape ?kw = [(Start, msg_elem ''m2''), (End, msg_elem ''m2'')]" .
  from th [of 0] h5 have c6: "tag (snd (Start, msg_elem ''m2'')) = ''msg''"
    by blast
  have g: "by_tags smoke_matchers" "tags_match smoke_matchers [''smoke'']"
    and hg: "fst ?ev = End \<and> tag (snd ?ev) = ''tag'' \<and> by_tags smoke_matchers \<and> inside ?s \<noteq> 0
        \<and> started ?s < 0
        \<and> tags_match smoke_matchers
             (tags ?s @ [case etext (snd ?ev) of None \<Rightarrow> '''' | Some txt \<Rightarrow> txt])"
    by (simp_all add: smoke_matchers_def tag_elem_def)
  from flatten_keywords_forwarding [where esc = html_escape and m = smoke_matchers and s = ?s
      and ev = ?ev] hg
  have y: "fst (flatten_step html_escape smoke_matchers ?s ?ev) = Yield ?ev"
    and z: "started (snd (flatten_step html_escape smoke_matchers ?s ?ev)) = 0"
    by blast+
  have rest: "tags (snd (flatten_step html_escape smoke_matchers ?s ?ev)) = [''smoke'']"
    "inside (snd (flatten_step html_escape smoke_matchers ?s ?ev)) = 1"
    by (simp_all add: flatten_step_def flatten_update_def Let_def containers_def
        smoke_matchers_def tag_elem_def)
  from y z rest have c8: "flatten_step html_escape smoke_matchers ?s ?ev = (Yield ?ev, ?lvl)"
    by (cases "flatten_step html_escape smoke_matchers ?s ?ev") simp
  have hh: "started ?lvl = 0" by simp
  from flatten_keywords_forwarding [where esc = html_escape and m = smoke_matchers and s = ?lvl
      and t = "Node (status_elem ''done'') []"] hh
  have "yielded (flatten_loop html_escape smoke_matchers ?lvl (events (Node (status_elem ''done'') [])))
      = flat_events html_escape (Node (status_elem ''done'') [])"
    by blast
  also have "\<dots> = [(Start, status_elem ''done''),
          (End, status_elem ''*HTML* done<hr><i>Content flattened.</i>'')]"
    by (simp add: status_elem_def containers_def rewrite_status_def create_flattened_message_def
        startswith_def html_escape_def)
  finally have c9: "yielded (flatten_loop html_escape smoke_matchers ?lvl
        (events (Node (status_elem ''done'') [])))
      = [(Start, status_elem ''done''),
          (End, status_elem ''*HTML* done<hr><i>Content flattened.</i>'')]" .
  from l7 c7 c5 h3 c3 h4 c4 h5 c6 g c8 c9 show ?thesis by blast
qed

text \<open>
  C3 as stated says that the descendants of a container matched by a flattening pattern
  are reduced to message nodes below the level of the container. A keyword that is
  matched by its tag, and whose \<open>tag\<close> element comes after a keyword it runs, is flattened
  (its status is rewritten), and the keyword it runs is yielded whole.
\<close>

theorem flatten_keywords_tag_match_counterexample:
  "yielded (flatten_keywords html_escape smoke_matchers_of (events tagged_kw) [''tag:smoke''])
     = [(Start, kw_elem ''Tagged''),
        (Start, kw_elem ''Log''), (Start, status_elem ''inner''), (End, status_elem ''inner''),
        (End, kw_elem ''Log''),
        (Start, tag_elem ''smoke''), (End, tag_elem ''smoke''),
        (Start, status_elem ''done''),
        (End, status_elem ''*HTML* done<hr><i>Content flattened.</i>''),
        (End, kw_elem ''Tagged'')]
   \<and> tag (kw_elem ''Log'') \<noteq> ''msg''"
  by (simp add: tagged_kw_def example_defs flatten_defs smoke_matchers_def
      create_flattened_message_def startswith_def html_escape_def)

subsection \<open>Nesting\<close>

text \<open>
  C4, as amended. While the filter is flattening, the Open of a container adds one to
  \<open>started\<close> (and to \<open>inside\<close>, and empties the accumulated tags) whatever the matchers
  are. The text of an element is changed only at the Close of a \<open>status\<close> element when
  \<open>started\<close> is zero, and then it becomes the flattened message of the original text.
  While the filter is flattening, a subtree leaves \<open>started\<close> as it was and what is
  yielded of it does not depend on the matchers, so no container inside a flattened one
  starts a flattening again. Every action of the filter yields the event, or yields the
  Close of a status rewritten once, or clears the element.

  Take three nested containers in a filter that is not flattening when the outer one
  opens, where the outer one does not match, none of the containers beside the middle
  one matches by name or type, and no list of the texts of the \<open>tag\<close> elements beside the
  middle one matches. When the middle one matches by name or type, the children of the
  outer one beside it are yielded as they are, the inner one is reduced to its messages
  whatever it is, and only statuses at the level of the middle one are rewritten. When
  the middle one matches by a tag of its own (no list of the tags that close in it
  before matches, and with that tag any of them does) and the inner one comes after
  that tag, the same holds for what follows the tag. When the inner one comes before
  that tag, it is yielded as it is with what else comes before the tag, what follows the
  tag is flattened, and the children of the outer one after the middle one are yielded
  as they are if there is no \<open>tag\<close> element among them, or if a container opens in the
  middle one after the tag. The accumulated tags are emptied only when a container
  opens; so otherwise a tag of the outer one that closes after the middle one is matched
  together with the tags of the middle one.
\<close>

theorem flatten_keywords_nesting:
  "(0 \<le> started s \<and> tag elem \<in> set containers \<longrightarrow>
      flatten_update esc m s (Start, elem)
        = (s\<lparr>inside := inside s + 1, started := started s + 1, tags := []\<rparr>, elem))
   \<and> (snd (flatten_update esc m s ev) \<noteq> snd ev \<longrightarrow>
        started s = 0 \<and> fst ev = End \<and> tag (snd ev) = ''status''
        \<and> snd (flatten_update esc m s ev)
            = (snd ev)\<lparr>etext := Some (create_flattened_message esc (etext (snd ev)))\<rparr>)
   \<and> (0 \<le> started s \<longrightarrow>
        yielded (flatten_loop esc m s (events t))
          = (if started s = 0 then flat_events esc t else msg_events t)
        \<and> started (flatten_state_after esc m s (events t)) = started s)
   \<and> (i < length evs \<longrightarrow>
        flatten_loop esc m s evs ! i
          \<in> {Yield (evs ! i), Yield (End, rewrite_status esc (snd (evs ! i))),
              Clear (snd (evs ! i))})
   \<and> (started s < 0
        \<and> tag a \<in> set containers \<and> \<not> triggers m a \<and> tag b \<in> set containers \<and> triggers m b
        \<and> tag c \<in> set containers
        \<and> list_all (no_trigger m) (pre @ post)
        \<and> no_tag_match m (concat (map tag_texts pre))
        \<and> no_tag_match m (concat (map tag_texts post)) \<longrightarrow>
        yielded (flatten_loop esc m s
           (events (Node a (pre @ [Node b (k1 @ [Node c ck] @ k2)] @ post))))
         = (Start, a) # events_forest pre
           @ (Start, b) # concat (map (flat_events esc) k1) @ msg_events (Node c ck)
             @ concat (map (flat_events esc) k2) @ [(End, b)]
           @ events_forest post @ [(End, a)])
   \<and> (started s < 0 \<and> 0 \<le> inside s
        \<and> tag a \<in> set containers \<and> \<not> triggers m a \<and> tag b \<in> set containers \<and> \<not> triggers m b
        \<and> tag c \<in> set containers
        \<and> tag tg = ''tag'' \<and> by_tags m
        \<and> list_all (no_trigger m) (pre @ before @ post)
        \<and> no_tag_match m (concat (map tag_texts pre))
        \<and> no_tag_match m (concat (map tag_texts before))
        \<and> (\<forall>acc. set acc \<subseteq> set (concat (map tag_texts before))
               \<longrightarrow> tags_match m (acc @ [tag_text tg]))
        \<and> no_tag_match m (concat (map tag_texts post)) \<longrightarrow>
        yielded (flatten_loop esc m s
           (events (Node a (pre @ [Node b (before @ [Node tg []] @ k1 @ [Node c ck] @ k2)] @ post))))
         = (Start, a) # events_forest pre
           @ (Start, b) # events_forest before @ [(Start, tg), (End, tg)]
             @ concat (map (flat_events esc) k1) @ msg_events (Node c ck)
             @ concat (map (flat_events esc) k2) @ [(End, b)]
           @ events_forest post @ [(End, a)])
   \<and> (started s < 0 \<and> 0 \<le> inside s
        \<and> tag a \<in> set containers \<and> \<not> triggers m a \<and> tag b \<in> set containers \<and> \<not> triggers m b
        \<and> tag c \<in> set containers
        \<and> tag tg = ''tag'' \<and> by_tags m
        \<and> list_all (no_trigger m) (pre @ (b1 @ [Node c ck] @ b2) @ post)
        \<and> no_tag_match m (concat (map tag_texts pre))
        \<and> no_tag_match m (concat (map tag_texts (b1 @ [Node c ck] @ b2)))
        \<and> (\<forall>acc. set acc \<subseteq> set (concat (map tag_texts (b1 @ [Node c ck] @ b2)))
               \<longrightarrow> tags_match m (acc @ [tag_text tg]))
        \<and> (concat (map tag_texts post) = []
            \<or> list_ex has_container kids \<and> no_tag_match m (concat (map tag_texts post))) \<longrightarrow>
        yielded (flatten_loop esc m s
           (events (Node a (pre @ [Node b ((b1 @ [Node c ck] @ b2) @ [Node tg []] @ kids)] @ post))))
         = (Start, a) # events_forest pre
           @ (Start, b) # events_forest (b1 @ [Node c ck] @ b2) @ [(Start, tg), (End, tg)]
             @ concat (map (flat_events esc) kids) @ [(End, b)]
           @ events_forest post @ [(End, a)])"
proof -
  have p1: "0 \<le> started s \<and> tag elem \<in> set containers \<longrightarrow>
      flatten_update esc m s (Start, elem)
        = (s\<lparr>inside := inside s + 1, started := started s + 1, tags := []\<rparr>, elem)"
    using flatten_update_start_flattening [of s elem esc m] by blast
  have p2: "snd (flatten_update esc m s ev) \<noteq> snd ev \<longrightarrow>
        started s = 0 \<and> fst ev = End \<and> tag (snd ev) = ''status''
        \<and> snd (flatten_update esc m s ev)
            = (snd ev)\<lparr>etext := Some (create_flattened_message esc (etext (snd ev)))\<rparr>"
    using flatten_update_rewrites [of esc m s ev] by blast
  have p3: "0 \<le> started s \<longrightarrow>
        yielded (flatten_loop esc m s (events t))
          = (if started s = 0 then flat_events esc t else msg_events t)
        \<and> started (flatten_state_after esc m s (events t)) = started s"
    using flatten_flattening_tree [of s esc m t] by blast
  have p4: "i < length evs \<longrightarrow>
        flatten_loop esc m s evs ! i
          \<in> {Yield (evs ! i), Yield (End, rewrite_status esc (snd (evs ! i))),
              Clear (snd (evs ! i))}"
    using flatten_loop_action [of i evs esc m s] by blast
  have fl: "concat (map (flat_events esc) (k1 @ [Node c ck] @ k2))
      = concat (map (flat_events esc) k1) @ msg_events (Node c ck)
        @ concat (map (flat_events esc) k2)"
    if "tag c \<in> set containers" for k1 k2
    using that by simp
  have p5: "started s < 0
        \<and> tag a \<in> set containers \<and> \<not> triggers m a \<and> tag b \<in> set containers \<and> triggers m b
        \<and> tag c \<in> set containers
        \<and> list_all (no_trigger m) (pre @ post)
        \<and> no_tag_match m (concat (map tag_texts pre))
        \<and> no_tag_match m (concat (map tag_texts post)) \<longrightarrow>
        yielded (flatten_loop esc m s
           (events (Node a (pre @ [Node b (k1 @ [Node c ck] @ k2)] @ post))))
         = (Start, a) # events_forest pre
           @ (Start, b) # concat (map (flat_events esc) k1) @ msg_events (Node c ck)
             @ concat (map (flat_events esc) k2) @ [(End, b)]
           @ events_forest post @ [(End, a)]"
  proof
    assume h: "started s < 0
        \<and> tag a \<in> set containers \<and> \<not> triggers m a \<and> tag b \<in> set containers \<and> triggers m b
        \<and> tag c \<in> set containers
        \<and> list_all (no_trigger m) (pre @ post)
        \<and> no_tag_match m (concat (map tag_texts pre))
        \<and> no_tag_match m (concat (map tag_texts post))"
    then have "yielded (flatten_loop esc m s
           (events (Node a (pre @ [Node b (k1 @ [Node c ck] @ k2)] @ post))))
         = (Start, a) # events_forest pre
           @ (Start, b) # concat (map (flat_events esc) (k1 @ [Node c ck] @ k2)) @ [(End, b)]
           @ events_forest post @ [(End, a)]"
      by (intro flatten_nested_container) simp_all
    with h fl [of k1 k2] show "yielded (flatten_loop esc m s
           (events (Node a (pre @ [Node b (k1 @ [Node c ck] @ k2)] @ post))))
         = (Start, a) # events_forest pre
           @ (Start, b) # concat (map (flat_events esc) k1) @ msg_events (Node c ck)
             @ concat (map (flat_events esc) k2) @ [(End, b)]
           @ events_forest post @ [(End, a)]"
      by (simp del: events.simps flat_events.simps msg_events.simps)
  qed
  have p6: "started s < 0 \<and> 0 \<le> inside s
        \<and> tag a \<in> set containers \<and> \<not> triggers m a \<and> tag b \<in> set containers \<and> \<not> triggers m b
        \<and> tag c \<in> set containers
        \<and> tag tg = ''tag'' \<and> by_tags m
        \<and> list_all (no_trigger m) (pre @ before @ post)
        \<and> no_tag_match m (concat (map tag_texts pre))
        \<and> no_tag_match m (concat (map tag_texts before))
        \<and> (\<forall>acc. set acc \<subseteq> set (concat (map tag_texts before))
               \<longrightarrow> tags_match m (acc @ [tag_text tg]))
        \<and> no_tag_match m (concat (map tag_texts post)) \<longrightarrow>
        yielded (flatten_loop esc m s
           (events (Node a (pre @ [Node b (before @ [Node tg []] @ k1 @ [Node c ck] @ k2)] @ post))))
         = (Start, a) # events_forest pre
           @ (Start, b) # events_forest before @ [(Start, tg), (End, tg)]
             @ concat (map (flat_events esc) k1) @ msg_events (Node c ck)
             @ concat (map (flat_events esc) k2) @ [(End, b)]
           @ events_forest post @ [(End, a)]"
  proof
    assume h: "started s < 0 \<and> 0 \<le> inside s
        \<and> tag a \<in> set containers \<and> \<not> triggers m a \<and> tag b \<in> set containers \<and> \<not> triggers m b
        \<and> tag c \<in> set containers
        \<and> tag tg = ''tag'' \<and> by_tags m
        \<and> list_all (no_trigger m) (pre @ before @ post)
        \<and> no_tag_match m (concat (map tag_texts pre))
        \<and> no_tag_match m (concat (map tag_texts before))
        \<and> (\<forall>acc. set acc \<subseteq> set (concat (map tag_texts before))
               \<longrightarrow> tags_match m (acc @ [tag_text tg]))
        \<and> no_tag_match m (concat (map tag_texts post))"
    then have hc: "list_ex has_container (k1 @ [Node c ck] @ k2)" by simp
    from h hc have "yielded (flatten_loop esc m s
           (events (Node a (pre @ [Node b (before @ [Node tg []] @ k1 @ [Node c ck] @ k2)] @ post))))
         = (Start, a) # events_forest pre
           @ (Start, b) # events_forest before @ [(Start, tg), (End, tg)]
             @ concat (map (flat_events esc) (k1 @ [Node c ck] @ k2)) @ [(End, b)]
           @ events_forest post @ [(End, a)]"
      by (intro flatten_nested_container_by_tag) simp_all
    with h fl [of k1 k2] show "yielded (flatten_loop esc m s
           (events (Node a (pre @ [Node b (before @ [Node tg []] @ k1 @ [Node c ck] @ k2)] @ post))))
         = (Start, a) # events_forest pre
           @ (Start, b) # events_forest before @ [(Start, tg), (End, tg)]
             @ concat (map (flat_events esc) k1) @ msg_events (Node c ck)
             @ concat (map (flat_events esc) k2) @ [(End, b)]
           @ events_forest post @ [(End, a)]"
      by (simp del: events.simps flat_events.simps msg_events.simps)
  qed
  have p7: "started s < 0 \<and> 0 \<le> inside s
        \<and> tag a \<in> set containers \<and> \<not> triggers m a \<and> tag b \<in> set containers \<and> \<not> triggers m b
        \<and> tag c \<in> set containers
        \<and> tag tg = ''tag'' \<and> by_tags m
        \<and> list_all (no_trigger m) (pre @ (b1 @ [Node c ck] @ b2) @ post)
        \<and> no_tag_match m (concat (map tag_texts pre))
        \<and> no_tag_match m (concat (map tag_texts (b1 @ [Node c ck] @ b2)))
        \<and> (\<forall>acc. set acc \<subseteq> set (concat (map tag_texts (b1 @ [Node c ck] @ b2)))
               \<longrightarrow> tags_match m (acc @ [tag_text tg]))
        \<and> (concat (map tag_texts post) = []
            \<or> list_ex has_container kids \<and> no_tag_match m (concat (map tag_texts post))) \<longrightarrow>
        yielded (flatten_loop esc m s
           (events (Node a (pre @ [Node b ((b1 @ [Node c ck] @ b2) @ [Node tg []] @ kids)] @ post))))
         = (Start, a) # events_forest pre
           @ (Start, b) # events_forest (b1 @ [Node c ck] @ b2) @ [(Start, tg), (End, tg)]
             @ concat (map (flat_events esc) kids) @ [(End, b)]
           @ events_forest post @ [(End, a)]"
    by (intro impI flatten_nested_container_by_tag) blast+
  from p1 p2 p3 p4 p5 p6 p7 show ?thesis by blast
qed

text \<open>
  C4 at a \<open>for\<close> loop that opens while the filter flattens and at a status that closes
  then, and at the keyword \<open>Outer\<close> that runs \<open>Middle\<close> that runs \<open>Inner\<close>: with \<open>Middle\<close>
  matched by name and a tag of \<open>Outer\<close> on either side of it, with \<open>Middle\<close> matched by its
  tag \<open>smoke\<close> before \<open>Inner\<close>, and with \<open>Middle\<close> matched by its tag \<open>smoke\<close> after \<open>Inner\<close>.
\<close>

theorem flatten_keywords_nesting_witness:
  "0 \<le> started \<lparr>started = 0, tags = [], inside = 1\<rparr> \<and> tag for_elem \<in> set containers
   \<and> triggers for_matchers for_elem
   \<and> flatten_update html_escape for_matchers \<lparr>started = 0, tags = [], inside = 1\<rparr> (Start, for_elem)
       = (\<lparr>started = 1, tags = [], inside = 2\<rparr>, for_elem)
   \<and> snd (flatten_update html_escape for_matchers \<lparr>started = 0, tags = [], inside = 1\<rparr>
          (End, status_elem ''done'')) \<noteq> snd (End, status_elem ''done'')
   \<and> snd (flatten_update html_escape for_matchers \<lparr>started = 0, tags = [], inside = 1\<rparr>
          (End, status_elem ''done''))
       = status_elem ''*HTML* done<hr><i>Content flattened.</i>''
   \<and> yielded (flatten_loop html_escape for_matchers \<lparr>started = 0, tags = [], inside = 1\<rparr>
          (events (Node (kw_elem ''Log'') [Node (msg_elem ''m2'') [], Node (status_elem ''inner'') []])))
       = [(Start, msg_elem ''m2''), (End, msg_elem ''m2'')]
   \<and> (1::nat) < length [(Start, status_elem ''done''), (End, status_elem ''done'')]
   \<and> flatten_loop html_escape for_matchers \<lparr>started = 0, tags = [], inside = 1\<rparr>
          [(Start, status_elem ''done''), (End, status_elem ''done'')] ! 1
       \<in> {Yield (End, status_elem ''done''),
           Yield (End, rewrite_status html_escape (status_elem ''done'')),
           Clear (status_elem ''done'')}
   \<and> started flatten_init < 0 \<and> 0 \<le> inside flatten_init
   \<and> tag (kw_elem ''Outer'') \<in> set containers \<and> tag (kw_elem ''Middle'') \<in> set containers
   \<and> tag (kw_elem ''Inner'') \<in> set containers
   \<and> \<not> triggers middle_matchers (kw_elem ''Outer'') \<and> triggers middle_matchers (kw_elem ''Middle'')
   \<and> no_tag_match middle_matchers [''other''] \<and> no_tag_match middle_matchers [''late'']
   \<and> yielded (flatten_keywords html_escape middle_matchers_of (events named_doc)
         [''name:Middle'', ''tag:smoke''])
       = [(Start, kw_elem ''Outer''), (Start, tag_elem ''other''), (End, tag_elem ''other''),
          (Start, kw_elem ''Middle''), (Start, msg_elem ''m''), (End, msg_elem ''m''),
          (Start, status_elem ''b''),
          (End, status_elem ''*HTML* b<hr><i>Content flattened.</i>''), (End, kw_elem ''Middle''),
          (Start, tag_elem ''late''), (End, tag_elem ''late''),
          (Start, status_elem ''a''), (End, status_elem ''a''), (End, kw_elem ''Outer'')]
   \<and> \<not> triggers smoke_matchers (kw_elem ''Outer'') \<and> \<not> triggers smoke_matchers (kw_elem ''Middle'')
   \<and> \<not> triggers smoke_matchers (kw_elem ''Inner'')
   \<and> tag (tag_elem ''smoke'') = ''tag'' \<and> by_tags smoke_matchers
   \<and> tags_match smoke_matchers [''smoke'']
   \<and> no_tag_match smoke_matchers [''other''] \<and> no_tag_match smoke_matchers [''late'']
   \<and> yielded (flatten_keywords html_escape smoke_matchers_of (events tag_first_doc) [''tag:smoke''])
       = [(Start, kw_elem ''Outer''), (Start, tag_elem ''other''), (End, tag_elem ''other''),
          (Start, kw_elem ''Middle''), (Start, tag_elem ''smoke''), (End, tag_elem ''smoke''),
          (Start, msg_elem ''m''), (End, msg_elem ''m''),
          (Start, status_elem ''b''),
          (End, status_elem ''*HTML* b<hr><i>Content flattened.</i>''), (End, kw_elem ''Middle''),
          (Start, tag_elem ''late''), (End, tag_elem ''late''),
          (Start, status_elem ''a''), (End, status_elem ''a''), (End, kw_elem ''Outer'')]
   \<and> concat (map tag_texts [Node (status_elem ''a'') []]) = []
   \<and> yielded (flatten_keywords html_escape smoke_matchers_of (events tag_last_doc) [''tag:smoke''])
       = [(Start, kw_elem ''Outer''), (Start, tag_elem ''other''), (End, tag_elem ''other''),
          (Start, kw_elem ''Middle''), (Start, kw_elem ''Inner''),
          (Start, msg_elem ''m''), (End, msg_elem ''m''),
          (Start, status_elem ''c''), (End, status_elem ''c''), (End, kw_elem ''Inner''),
          (Start, tag_elem ''smoke''), (End, tag_elem ''smoke''),
          (Start, status_elem ''b''),
          (End, status_elem ''*HTML* b<hr><i>Content flattened.</i>''), (End, kw_elem ''Middle''),
          (Start, status_elem ''a''), (End, status_elem ''a''), (End, kw_elem ''Outer'')]"
proof -
  let ?s = "\<lparr>started = 0, tags = [], inside = 1\<rparr>"
  let ?kw = "Node (kw_elem ''Log'') [Node (msg_elem ''m2'') [], Node (status_elem ''inner'') []]"
  let ?evs = "[(Start, status_elem ''done''), (End, status_elem ''done'')]"
  note th = flatten_keywords_nesting [where s = ?s and elem = for_elem and esc = html_escape
      and m = for_matchers and ev = "(End, status_elem ''done'')" and t = ?kw and i = 1
      and evs = ?evs]
  have h1: "0 \<le> started ?s \<and> tag for_elem \<in> set containers"
    by (simp add: for_elem_def containers_def)
  have tr: "triggers for_matchers for_elem"
    by (simp add: triggers_def for_matchers_def for_elem_def)
  have h2: "snd (flatten_update html_escape for_matchers ?s (End, status_elem ''done''))
      \<noteq> snd (End, status_elem ''done'')"
    by (simp add: flatten_update_def Let_def containers_def status_elem_def
        create_flattened_message_def startswith_def html_escape_def)
  have h4: "(1::nat) < length ?evs" by simp
  from th h1 have "flatten_update html_escape for_matchers ?s (Start, for_elem)
      = (?s\<lparr>inside := inside ?s + 1, started := started ?s + 1, tags := []\<rparr>, for_elem)"
    by blast
  then have c1: "flatten_update html_escape for_matchers ?s (Start, for_elem)
      = (\<lparr>started = 1, tags = [], inside = 2\<rparr>, for_elem)"
    by simp
  from th h2 have "snd (flatten_update html_escape for_matchers ?s (End, status_elem ''done''))
      = (snd (End, status_elem ''done''))\<lparr>etext :=
          Some (create_flattened_message html_escape (etext (snd (End, status_elem ''done''))))\<rparr>"
    by blast
  also have "\<dots> = status_elem ''*HTML* done<hr><i>Content flattened.</i>''"
    by (simp add: status_elem_def create_flattened_message_def startswith_def html_escape_def)
  finally have c2: "snd (flatten_update html_escape for_matchers ?s (End, status_elem ''done''))
      = status_elem ''*HTML* done<hr><i>Content flattened.</i>''" .
  from th h1 have "yielded (flatten_loop html_escape for_matchers ?s (events ?kw))
      = (if started ?s = 0 then flat_events html_escape ?kw else msg_events ?kw)"
    by blast
  also have "\<dots> = [(Start, msg_elem ''m2''), (End, msg_elem ''m2'')]"
    by (simp add: example_defs containers_def)
  finally have c3: "yielded (flatten_loop html_escape for_matchers ?s (events ?kw))
      = [(Start, msg_elem ''m2''), (End, msg_elem ''m2'')]" .
  from th h4 have "flatten_loop html_escape for_matchers ?s ?evs ! 1
      \<in> {Yield (?evs ! 1), Yield (End, rewrite_status html_escape (snd (?evs ! 1))),
          Clear (snd (?evs ! 1))}"
    by blast
  then have c4: "flatten_loop html_escape for_matchers ?s ?evs ! 1
      \<in> {Yield (End, status_elem ''done''),
          Yield (End, rewrite_status html_escape (status_elem ''done'')),
          Clear (status_elem ''done'')}"
    by simp
  let ?a = "kw_elem ''Outer''" and ?b = "kw_elem ''Middle''" and ?c = "kw_elem ''Inner''"
  let ?tg = "tag_elem ''smoke''"
  let ?ck = "[Node (msg_elem ''m'') [], Node (status_elem ''c'') []]"
  let ?other = "[Node (tag_elem ''other'') []]"
  let ?sb = "[Node (status_elem ''b'') []]"
  let ?sa = "[Node (status_elem ''a'') []]"
  let ?late = "[Node (tag_elem ''late'') [], Node (status_elem ''a'') []]"
  let ?flat = "status_elem ''*HTML* b<hr><i>Content flattened.</i>''"
  have i0: "started flatten_init < 0" "0 \<le> inside flatten_init"
    by (simp_all add: flatten_init_def)
  have k: "tag ?a \<in> set containers" "tag ?b \<in> set containers" "tag ?c \<in> set containers"
    by (simp_all add: kw_elem_def containers_def)
  have sb: "rewrite_status html_escape (status_elem ''b'') = ?flat"
    by (simp add: rewrite_status_def status_elem_def create_flattened_message_def startswith_def
        html_escape_def)
  have tags: "tag (status_elem ''b'') \<notin> set containers" "tag (msg_elem ''m'') = ''msg''"
    "tag (status_elem ''c'') \<noteq> ''msg''" "tag ?c \<noteq> ''msg''"
    by (simp_all add: status_elem_def msg_elem_def kw_elem_def containers_def)
  have inner: "msg_events (Node ?c ?ck) = [(Start, msg_elem ''m''), (End, msg_elem ''m'')]"
    using tags by simp
  have fsb: "concat (map (flat_events html_escape) ?sb) = [(Start, status_elem ''b''), (End, ?flat)]"
    using tags sb by simp
  have mm: "\<not> triggers middle_matchers ?a" "triggers middle_matchers ?b"
    by (simp_all add: triggers_def middle_matchers_def kw_elem_def get_name_def get_def)
  have mq: "list_all (no_trigger middle_matchers) (?other @ ?late)"
    by (simp add: tag_elem_def status_elem_def containers_def)
  have mn: "no_tag_match middle_matchers [''other'']" "no_tag_match middle_matchers [''late'']"
    by (auto simp add: no_tag_match_def middle_matchers_def)
  have tx: "concat (map tag_texts ?other) = [''other'']" "concat (map tag_texts ?late) = [''late'']"
    "concat (map tag_texts ?sa) = []" "concat (map tag_texts [Node ?c ?ck]) = []"
    "concat (map tag_texts ([] :: xml list)) = []" "tag_text ?tg = ''smoke''"
    by (simp_all add: tag_elem_def status_elem_def msg_elem_def kw_elem_def tag_text_def)
  from mn tx have mn': "no_tag_match middle_matchers (concat (map tag_texts ?other))"
    "no_tag_match middle_matchers (concat (map tag_texts ?late))"
    by simp_all
  note th5 = flatten_keywords_nesting [where s = flatten_init and esc = html_escape
      and m = middle_matchers and a = ?a and b = ?b and c = ?c and pre = ?other and post = ?late
      and ?k1.0 = "[]" and ck = ?ck and ?k2.0 = ?sb]
  from th5 i0 k mm mq mn'
  have "yielded (flatten_loop html_escape middle_matchers flatten_init
         (events (Node ?a (?other @ [Node ?b ([] @ [Node ?c ?ck] @ ?sb)] @ ?late))))
       = (Start, ?a) # events_forest ?other
         @ (Start, ?b) # concat (map (flat_events html_escape) []) @ msg_events (Node ?c ?ck)
           @ concat (map (flat_events html_escape) ?sb) @ [(End, ?b)]
         @ events_forest ?late @ [(End, ?a)]"
    by blast
  also have "Node ?a (?other @ [Node ?b ([] @ [Node ?c ?ck] @ ?sb)] @ ?late) = named_doc"
    by (simp add: named_doc_def inner_kw_def)
  also have "(Start, ?a) # events_forest ?other
         @ (Start, ?b) # concat (map (flat_events html_escape) []) @ msg_events (Node ?c ?ck)
           @ concat (map (flat_events html_escape) ?sb) @ [(End, ?b)]
         @ events_forest ?late @ [(End, ?a)]
       = [(Start, ?a), (Start, tag_elem ''other''), (End, tag_elem ''other''),
          (Start, ?b), (Start, msg_elem ''m''), (End, msg_elem ''m''),
          (Start, status_elem ''b''), (End, ?flat), (End, ?b),
          (Start, tag_elem ''late''), (End, tag_elem ''late''),
          (Start, status_elem ''a''), (End, status_elem ''a''), (End, ?a)]"
    by (simp only: inner fsb) (simp add: events_forest_def)
  finally have c5: "yielded (flatten_keywords html_escape middle_matchers_of (events named_doc)
         [''name:Middle'', ''tag:smoke''])
       = [(Start, ?a), (Start, tag_elem ''other''), (End, tag_elem ''other''),
          (Start, ?b), (Start, msg_elem ''m''), (End, msg_elem ''m''),
          (Start, status_elem ''b''), (End, ?flat), (End, ?b),
          (Start, tag_elem ''late''), (End, tag_elem ''late''),
          (Start, status_elem ''a''), (End, status_elem ''a''), (End, ?a)]"
    by (simp only: flatten_keywords_def middle_matchers_of_def)
  have sm: "\<not> triggers smoke_matchers ?a" "\<not> triggers smoke_matchers ?b"
    "\<not> triggers smoke_matchers ?c"
    by (simp_all add: triggers_def smoke_matchers_def)
  have g: "tag ?tg = ''tag''" "by_tags smoke_matchers" "tags_match smoke_matchers [''smoke'']"
    by (simp_all add: tag_elem_def smoke_matchers_def)
  have sn: "no_tag_match smoke_matchers [''other'']" "no_tag_match smoke_matchers [''late'']"
    "no_tag_match smoke_matchers []"
    by (auto simp add: no_tag_match_def smoke_matchers_def)
  from sn tx have sn': "no_tag_match smoke_matchers (concat (map tag_texts ?other))"
    "no_tag_match smoke_matchers (concat (map tag_texts ?late))"
    "no_tag_match smoke_matchers (concat (map tag_texts ([] :: xml list)))"
    "no_tag_match smoke_matchers (concat (map tag_texts ([] @ [Node ?c ?ck] @ [])))"
    by simp_all
  have sq: "list_all (no_trigger smoke_matchers) (?other @ [] @ ?late)"
    "list_all (no_trigger smoke_matchers) (?other @ ([] @ [Node ?c ?ck] @ []) @ ?sa)"
    using sm by (simp_all add: tag_elem_def status_elem_def msg_elem_def containers_def)
  have hit: "\<forall>acc. set acc \<subseteq> set (concat (map tag_texts ([] :: xml list)))
               \<longrightarrow> tags_match smoke_matchers (acc @ [tag_text ?tg])"
    "\<forall>acc. set acc \<subseteq> set (concat (map tag_texts ([] @ [Node ?c ?ck] @ [])))
               \<longrightarrow> tags_match smoke_matchers (acc @ [tag_text ?tg])"
    using tx by (simp_all add: smoke_matchers_def)
  note th6 = flatten_keywords_nesting [where s = flatten_init and esc = html_escape
      and m = smoke_matchers and a = ?a and b = ?b and c = ?c and tg = ?tg
      and pre = ?other and before = "[]" and post = ?late
      and ?k1.0 = "[]" and ck = ?ck and ?k2.0 = ?sb]
  from th6 i0 k sm g(1,2) sq(1) sn'(1,2,3) hit(1)
  have "yielded (flatten_loop html_escape smoke_matchers flatten_init
         (events (Node ?a (?other @ [Node ?b ([] @ [Node ?tg []] @ [] @ [Node ?c ?ck] @ ?sb)] @ ?late))))
       = (Start, ?a) # events_forest ?other
         @ (Start, ?b) # events_forest [] @ [(Start, ?tg), (End, ?tg)]
           @ concat (map (flat_events html_escape) []) @ msg_events (Node ?c ?ck)
           @ concat (map (flat_events html_escape) ?sb) @ [(End, ?b)]
         @ events_forest ?late @ [(End, ?a)]"
    by blast
  also have "Node ?a (?other @ [Node ?b ([] @ [Node ?tg []] @ [] @ [Node ?c ?ck] @ ?sb)] @ ?late)
      = tag_first_doc"
    by (simp add: tag_first_doc_def inner_kw_def)
  also have "(Start, ?a) # events_forest ?other
         @ (Start, ?b) # events_forest [] @ [(Start, ?tg), (End, ?tg)]
           @ concat (map (flat_events html_escape) []) @ msg_events (Node ?c ?ck)
           @ concat (map (flat_events html_escape) ?sb) @ [(End, ?b)]
         @ events_forest ?late @ [(End, ?a)]
       = [(Start, ?a), (Start, tag_elem ''other''), (End, tag_elem ''other''),
          (Start, ?b), (Start, ?tg), (End, ?tg), (Start, msg_elem ''m''), (End, msg_elem ''m''),
          (Start, status_elem ''b''), (End, ?flat), (End, ?b),
          (Start, tag_elem ''late''), (End, tag_elem ''late''),
          (Start, status_elem ''a''), (End, status_elem ''a''), (End, ?a)]"
    by (simp only: inner fsb) (simp add: events_forest_def)
  finally have c6: "yielded (flatten_keywords html_escape smoke_matchers_of (events tag_first_doc)
         [''tag:smoke''])
       = [(Start, ?a), (Start, tag_elem ''other''), (End, tag_elem ''other''),
          (Start, ?b), (Start, ?tg), (End, ?tg), (Start, msg_elem ''m''), (End, msg_elem ''m''),
          (Start, status_elem ''b''), (End, ?flat), (End, ?b),
          (Start, tag_elem ''late''), (End, tag_elem ''late''),
          (Start, status_elem ''a''), (End, status_elem ''a''), (End, ?a)]"
    by (simp only: flatten_keywords_def smoke_matchers_of_def)
  note th7 = flatten_keywords_nesting [where s = flatten_init and esc = html_escape
      and m = smoke_matchers and a = ?a and b = ?b and c = ?c and tg = ?tg
      and pre = ?other and ?b1.0 = "[]" and ?b2.0 = "[]" and post = ?sa
      and ck = ?ck and kids = ?sb]
  from th7 i0 k sm g(1,2) sq(2) sn'(1,4) hit(2) tx(3)
  have "yielded (flatten_loop html_escape smoke_matchers flatten_init
         (events (Node ?a (?other @ [Node ?b (([] @ [Node ?c ?ck] @ []) @ [Node ?tg []] @ ?sb)] @ ?sa))))
       = (Start, ?a) # events_forest ?other
         @ (Start, ?b) # events_forest ([] @ [Node ?c ?ck] @ []) @ [(Start, ?tg), (End, ?tg)]
           @ concat (map (flat_events html_escape) ?sb) @ [(End, ?b)]
         @ events_forest ?sa @ [(End, ?a)]"
    by blast
  also have "Node ?a (?other @ [Node ?b (([] @ [Node ?c ?ck] @ []) @ [Node ?tg []] @ ?sb)] @ ?sa)
      = tag_last_doc"
    by (simp add: tag_last_doc_def inner_kw_def)
  also have "(Start, ?a) # events_forest ?other
         @ (Start, ?b) # events_forest ([] @ [Node ?c ?ck] @ []) @ [(Start, ?tg), (End, ?tg)]
           @ concat (map (flat_events html_escape) ?sb) @ [(End, ?b)]
         @ events_forest ?sa @ [(End, ?a)]
       = [(Start, ?a), (Start, tag_elem ''other''), (End, tag_elem ''other''),
          (Start, ?b), (Start, ?c), (Start, msg_elem ''m''), (End, msg_elem ''m''),
          (Start, status_elem ''c''), (End, status_elem ''c''), (End, ?c),
          (Start, ?tg), (End, ?tg),
          (Start, status_elem ''b''), (End, ?flat), (End, ?b),
          (Start, status_elem ''a''), (End, status_elem ''a''), (End, ?a)]"
    by (simp only: fsb) (simp add: events_forest_def)
  finally have c7: "yielded (flatten_keywords html_escape smoke_matchers_of (events tag_last_doc)
         [''tag:smoke''])
       = [(Start, ?a), (Start, tag_elem ''other''), (End, tag_elem ''other''),
          (Start, ?b), (Start, ?c), (Start, msg_elem ''m''), (End, msg_elem ''m''),
          (Start, status_elem ''c''), (End, status_elem ''c''), (End, ?c),
          (Start, ?tg), (End, ?tg),
          (Start, status_elem ''b''), (End, ?flat), (End, ?b),
          (Start, status_elem ''a''), (End, status_elem ''a''), (End, ?a)]"
    by (simp only: flatten_keywords_def smoke_matchers_of_def)
  from h1 tr c1 h2 c2 c3 h4 c4 i0 k mm mn c5 sm g sn(1,2) c6 tx(3) c7 show ?thesis by blast
qed

text \<open>
  C4 as stated says that where only the middle one of three nested containers matches,
  only statuses at its level are rewritten. Here the keyword \<open>Middle\<close> has the tag \<open>smoke\<close>
  after the keyword it runs, and the keyword \<open>Outer\<close> has the tag \<open>other\<close> after \<open>Middle\<close>.
  No keyword matches by name or type and \<open>other\<close> does not match, but the accumulated
  tags are emptied only when a container opens: when \<open>other\<close> closes they still hold
  \<open>smoke\<close>, the filter starts flattening \<open>Outer\<close>, and the status of \<open>Outer\<close> is rewritten
  as well.
\<close>

theorem flatten_keywords_stale_tags_counterexample:
  "\<not> triggers smoke_matchers (kw_elem ''Outer'') \<and> \<not> triggers smoke_matchers (kw_elem ''Middle'')
   \<and> \<not> triggers smoke_matchers (kw_elem ''Inner'')
   \<and> tags_match smoke_matchers [''smoke''] \<and> \<not> tags_match smoke_matchers [''other'']
   \<and> yielded (flatten_keywords html_escape smoke_matchers_of (events stale_tag_doc) [''tag:smoke''])
       = [(Start, kw_elem ''Outer''), (Start, kw_elem ''Middle''), (Start, kw_elem ''Inner''),
          (Start, msg_elem ''m''), (End, msg_elem ''m''),
          (Start, status_elem ''c''), (End, status_elem ''c''), (End, kw_elem ''Inner''),
          (Start, tag_elem ''smoke''), (End, tag_elem ''smoke''),
          (Start, status_elem ''b''),
          (End, status_elem ''*HTML* b<hr><i>Content flattened.</i>''), (End, kw_elem ''Middle''),
          (Start, tag_elem ''other''), (End, tag_elem ''other''),
          (Start, status_elem ''a''),
          (End, status_elem ''*HTML* a<hr><i>Content flattened.</i>''), (End, kw_elem ''Outer'')]"
  by (simp add: stale_tag_doc_def inner_kw_def triggers_def example_defs flatten_defs
      smoke_matchers_def create_flattened_message_def startswith_def html_escape_def)

subsection \<open>Accumulated tags\<close>

text \<open>
  C5, as amended. A step of the filter appends the text of an element to the accumulated
  tags exactly when the event is the Close of a \<open>tag\<close> element, the tag matcher is
  configured, \<open>inside\<close> is not zero and the filter is not flattening; the Open of a
  container empties the accumulated tags and no other step changes them. When the text
  is appended and the tag matcher matches the accumulated tags, \<open>started\<close> is zero after
  that step. The counter \<open>inside\<close> is the number of containers that are open: tags are
  read inside a container and not directly inside a test.
\<close>

theorem flatten_keywords_tag_accumulation:
  "tags (snd (flatten_step esc m s ev)) =
     (if fst ev = Start \<and> tag (snd ev) \<in> set containers then []
      else if fst ev = End \<and> tag (snd ev) = ''tag'' \<and> by_tags m \<and> inside s \<noteq> 0 \<and> started s < 0
        then tags s @ [case etext (snd ev) of None \<Rightarrow> '''' | Some t \<Rightarrow> t]
      else tags s)
   \<and> (fst ev = End \<and> tag (snd ev) = ''tag'' \<and> by_tags m \<and> inside s \<noteq> 0 \<and> started s < 0 \<longrightarrow>
        started (snd (flatten_step esc m s ev))
          = (if tags_match m (tags s @ [case etext (snd ev) of None \<Rightarrow> '''' | Some t \<Rightarrow> t])
             then 0 else started s))
   \<and> inside (flatten_state_after esc m flatten_init evs) = open_containers evs"
proof -
  have p1: "tags (snd (flatten_step esc m s ev)) =
     (if fst ev = Start \<and> tag (snd ev) \<in> set containers then []
      else if fst ev = End \<and> tag (snd ev) = ''tag'' \<and> by_tags m \<and> inside s \<noteq> 0 \<and> started s < 0
        then tags s @ [case etext (snd ev) of None \<Rightarrow> '''' | Some t \<Rightarrow> t]
      else tags s)"
    by (rule flatten_step_tags)
  have p2: "fst ev = End \<and> tag (snd ev) = ''tag'' \<and> by_tags m \<and> inside s \<noteq> 0 \<and> started s < 0 \<longrightarrow>
        started (snd (flatten_step esc m s ev))
          = (if tags_match m (tags s @ [case etext (snd ev) of None \<Rightarrow> '''' | Some t \<Rightarrow> t])
             then 0 else started s)"
    using flatten_step_tag_close [of ev m s esc] by blast
  have p3: "inside (flatten_state_after esc m flatten_init evs) = open_containers evs"
    using flatten_state_after_inside [of esc m flatten_init evs]
    by (simp add: flatten_init_def)
  from p1 p2 p3 show ?thesis by blast
qed

text \<open>
  C5 at the Close of the tag \<open>smoke\<close> inside a keyword that has the tag \<open>slow\<close> already.
\<close>

theorem flatten_keywords_tag_accumulation_witness:
  "fst (End, tag_elem ''smoke'') = End \<and> tag (snd (End, tag_elem ''smoke'')) = ''tag''
   \<and> by_tags smoke_matchers \<and> inside \<lparr>started = - 1, tags = [''slow''], inside = 1\<rparr> \<noteq> 0
   \<and> started \<lparr>started = - 1, tags = [''slow''], inside = 1\<rparr> < 0
   \<and> tags (snd (flatten_step html_escape smoke_matchers
         \<lparr>started = - 1, tags = [''slow''], inside = 1\<rparr> (End, tag_elem ''smoke'')))
       = [''slow'', ''smoke'']
   \<and> started (snd (flatten_step html_escape smoke_matchers
         \<lparr>started = - 1, tags = [''slow''], inside = 1\<rparr> (End, tag_elem ''smoke''))) = 0
   \<and> inside (flatten_state_after html_escape smoke_matchers flatten_init
         [(Start, test_elem), (Start, kw_elem ''Log''), (Start, tag_elem ''smoke'')]) = 1"
proof -
  let ?s = "\<lparr>started = - 1, tags = [''slow''], inside = 1\<rparr>"
  let ?ev = "(End, tag_elem ''smoke'')"
  let ?evs = "[(Start, test_elem), (Start, kw_elem ''Log''), (Start, tag_elem ''smoke'')]"
  note th = flatten_keywords_tag_accumulation [where esc = html_escape and m = smoke_matchers
      and s = ?s and ev = ?ev and evs = ?evs]
  have h: "fst ?ev = End \<and> tag (snd ?ev) = ''tag'' \<and> by_tags smoke_matchers \<and> inside ?s \<noteq> 0
      \<and> started ?s < 0"
    by (simp add: tag_elem_def smoke_matchers_def)
  from th have "tags (snd (flatten_step html_escape smoke_matchers ?s ?ev)) =
     (if fst ?ev = Start \<and> tag (snd ?ev) \<in> set containers then []
      else if fst ?ev = End \<and> tag (snd ?ev) = ''tag'' \<and> by_tags smoke_matchers \<and> inside ?s \<noteq> 0
            \<and> started ?s < 0
        then tags ?s @ [case etext (snd ?ev) of None \<Rightarrow> '''' | Some t \<Rightarrow> t]
      else tags ?s)"
    by blast
  also have "\<dots> = [''slow'', ''smoke'']"
    by (simp add: tag_elem_def smoke_matchers_def)
  finally have c1: "tags (snd (flatten_step html_escape smoke_matchers ?s ?ev)) = [''slow'', ''smoke'']" .
  from th h have "started (snd (flatten_step html_escape smoke_matchers ?s ?ev))
      = (if tags_match smoke_matchers
              (tags ?s @ [case etext (snd ?ev) of None \<Rightarrow> '''' | Some t \<Rightarrow> t])
         then 0 else started ?s)"
    by blast
  also have "\<dots> = 0"
    by (simp add: tag_elem_def smoke_matchers_def)
  finally have c2: "started (snd (flatten_step html_escape smoke_matchers ?s ?ev)) = 0" .
  from th have "inside (flatten_state_after html_escape smoke_matchers flatten_init ?evs)
      = open_containers ?evs"
    by blast
  also have "\<dots> = 1"
    by (simp add: open_containers_def containers_def test_elem_def kw_elem_def tag_elem_def)
  finally have c3: "inside (flatten_state_after html_escape smoke_matchers flatten_init ?evs) = 1" .
  from h c1 c2 c3 show ?thesis by blast
qed

text \<open>
  C5 as stated says that the text of a \<open>tag\<close> element is accumulated when the element
  closes inside a test and not inside a container. A tag that closes directly inside a
  test, with no container open, is not accumulated and starts no flattening although it
  matches; a tag that closes inside a keyword of the test is accumulated and starts the
  flattening.
\<close>

theorem flatten_keywords_test_tag_counterexample:
  "by_tags smoke_matchers \<and> tags_match smoke_matchers [''smoke'']
   \<and> open_containers [(Start, test_elem), (Start, tag_elem ''smoke'')] = 0
   \<and> started (flatten_state_after html_escape smoke_matchers flatten_init
        [(Start, test_elem), (Start, tag_elem ''smoke'')]) < 0
   \<and> flatten_state_after html_escape smoke_matchers flatten_init
        [(Start, test_elem), (Start, tag_elem ''smoke''), (End, tag_elem ''smoke'')]
       = \<lparr>started = - 1, tags = [], inside = 0\<rparr>
   \<and> open_containers [(Start, test_elem), (Start, kw_elem ''Log''), (Start, tag_elem ''smoke'')] = 1
   \<and> flatten_state_after html_escape smoke_matchers flatten_init
        [(Start, test_elem), (Start, kw_elem ''Log''), (Start, tag_elem ''smoke''),
         (End, tag_elem ''smoke'')]
       = \<lparr>started = 0, tags = [''smoke''], inside = 1\<rparr>"
  by (simp add: smoke_matchers_def open_containers_def containers_def test_elem_def tag_elem_def
      kw_elem_def flatten_init_def flatten_step_def flatten_update_def Let_def)

section \<open>Properties of parsing, building and the factory\<close>

text \<open>
  C10. Called with no source, the factory raises the data error with the message
  \<open>One or more data source needed.\<close> and the list of opened sources is as it was: no
  source is opened and no result is made.
\<close>

theorem ExecutionResult_no_sources:
  "ExecutionResult env [] opts opened
     = (Inl (DataError ''One or more data source needed.''), opened)"
  by simp

lemma single_result_cases:
  "single_result env src opts opened =
     (if extra opts \<noteq> []
      then (Inl (DataError (reading_failed env src (error_text env (OtherError ''TypeError'')))), opened)
      else case build env src (include_keywords opts) (flattened_keywords opts)
                  \<lparr>r_source = src, rpa = opt_rpa opts, suite = empty_suite\<rparr> opened of
             (Inr built, opened') \<Rightarrow> (Inr built, opened')
           | (Inl e, opened') \<Rightarrow> (Inl (DataError (reading_failed env src (error_text env e))), opened'))"
  by (simp add: single_result_def Let_def)

text \<open>
  C7, as amended. The ingestion of one source returns a result only when the builder was
  created and \<open>build\<close> returned that result. When \<open>build\<close> raises, or the builder cannot
  be created, it raises a data error and returns no result; the message of the data
  error holds the text of the source and a text for the cause. For an \<open>IOError\<close> that has
  a \<open>strerror\<close> that text is its \<open>strerror\<close>, whatever its message is; for any other
  exception it is the answer of \<open>get_error_message\<close>. \<open>build\<close> raises when the source
  cannot be opened and when parsing raises, and parsing raises when the element handler
  raises and when the tokenizer fails after the events it has delivered.
\<close>

theorem single_result_all_or_nothing:
  "(fst (single_result env src opts opened) = Inr built \<longleftrightarrow>
      extra opts = []
      \<and> fst (build env src (include_keywords opts) (flattened_keywords opts)
               \<lparr>r_source = src, rpa = opt_rpa opts, suite = empty_suite\<rparr> opened) = Inr built)
   \<and> (extra opts = []
       \<and> fst (build env src (include_keywords opts) (flattened_keywords opts)
               \<lparr>r_source = src, rpa = opt_rpa opts, suite = empty_suite\<rparr> opened) = Inl e
       \<longrightarrow> fst (single_result env src opts opened)
             = Inl (DataError (''Reading XML source '' @ [CHR 0x27] @ source_str env src
                      @ [CHR 0x27] @ '' failed: '' @ error_text env e)))
   \<and> (extra opts \<noteq> []
       \<longrightarrow> fst (single_result env src opts opened)
             = Inl (DataError (''Reading XML source '' @ [CHR 0x27] @ source_str env src
                      @ [CHR 0x27] @ '' failed: '' @ get_error_message env (OtherError ''TypeError''))))
   \<and> error_text env (IOError (Some msg) str) = msg
   \<and> error_text env (OtherError info) = get_error_message env (OtherError info)
   \<and> (open_source env src = Inl e \<longrightarrow> fst (build env src incl fl r opened) = Inl e)
   \<and> (open_source env src = Inr stream \<and> parse env incl fl stream (new_handler env r) = Inl e
       \<longrightarrow> fst (build env src incl fl r opened) = Inl e)
   \<and> (snd stream = Some e
       \<and> handle_events env (apply_filter env (choose_filter incl fl) (fst stream)) h = Inr h'
       \<longrightarrow> parse env incl fl stream h = Inl e)
   \<and> (handle_events env (apply_filter env (choose_filter incl fl) (fst stream)) h = Inl e
       \<longrightarrow> parse env incl fl stream h = Inl e)"
proof -
  let ?b = "build env src (include_keywords opts) (flattened_keywords opts)
               \<lparr>r_source = src, rpa = opt_rpa opts, suite = empty_suite\<rparr> opened"
  have p1: "fst (single_result env src opts opened) = Inr built \<longleftrightarrow>
      extra opts = [] \<and> fst ?b = Inr built"
    by (cases ?b; cases "fst ?b") (auto simp add: single_result_cases)
  have p2: "extra opts = [] \<and> fst ?b = Inl e
       \<longrightarrow> fst (single_result env src opts opened)
             = Inl (DataError (''Reading XML source '' @ [CHR 0x27] @ source_str env src
                      @ [CHR 0x27] @ '' failed: '' @ error_text env e))"
    by (cases ?b) (auto simp add: single_result_cases reading_failed_def)
  have p3: "extra opts \<noteq> []
       \<longrightarrow> fst (single_result env src opts opened)
             = Inl (DataError (''Reading XML source '' @ [CHR 0x27] @ source_str env src
                      @ [CHR 0x27] @ '' failed: '' @ get_error_message env (OtherError ''TypeError'')))"
    by (simp add: single_result_cases reading_failed_def error_text_def)
  have p4: "error_text env (IOError (Some msg) str) = msg"
    and p5: "error_text env (OtherError info) = get_error_message env (OtherError info)"
    by (simp_all add: error_text_def)
  have p6: "open_source env src = Inl e \<longrightarrow> fst (build env src incl fl r opened) = Inl e"
    by (simp add: build_def)
  have p7: "open_source env src = Inr stream \<and> parse env incl fl stream (new_handler env r) = Inl e
       \<longrightarrow> fst (build env src incl fl r opened) = Inl e"
    by (simp add: build_def)
  have p8: "snd stream = Some e
       \<and> handle_events env (apply_filter env (choose_filter incl fl) (fst stream)) h = Inr h'
       \<longrightarrow> parse env incl fl stream h = Inl e"
    by (simp add: parse_def)
  have p9: "handle_events env (apply_filter env (choose_filter incl fl) (fst stream)) h = Inl e
       \<longrightarrow> parse env incl fl stream h = Inl e"
    by (simp add: parse_def)
  from p1 p2 p3 p4 p5 p6 p7 p8 p9 show ?thesis by blast
qed

lemmas model_defs = model_env_def files_def default_options_def new_result_def build_def parse_def
  choose_filter_def apply_filter_def builder_start_def builder_end_def builder_result_def
  remove_keywords_pass_def

lemmas doc_defs = suite_doc_def stripped_doc_def test_node_def suite_elem_def test_elem_def
  log_kw_def teardown_kw_def status_elem_def

lemmas tree_defs = to_test_def is_kw_type_def is_step_def get_def containers_def node_failed_def
  start_suite_def visit_test_def

text \<open>
  C7 at a source that holds a document, at a source that does not exist, at an unknown
  option, at a source whose tokenizer fails, and with an element handler that raises.
\<close>

theorem single_result_all_or_nothing_witness:
  "extra default_options = []
   \<and> fst (build (model_env files) ''output.xml'' True None (new_result ''output.xml'') [])
       = Inr ((new_result ''output.xml'')\<lparr>suite := to_suite suite_doc\<rparr>)
   \<and> fst (single_result (model_env files) ''output.xml'' default_options [])
       = Inr ((new_result ''output.xml'')\<lparr>suite := to_suite suite_doc\<rparr>)
   \<and> open_source (model_env files) ''missing.xml''
       = Inl (IOError (Some ''No such file or directory'') ''[Errno 2] No such file or directory'')
   \<and> fst (build (model_env files) ''missing.xml'' True None (new_result ''missing.xml'') [])
       = Inl (IOError (Some ''No such file or directory'') ''[Errno 2] No such file or directory'')
   \<and> fst (single_result (model_env files) ''missing.xml'' default_options [])
       = Inl (DataError (''Reading XML source '' @ [CHR 0x27] @ ''missing.xml'' @ [CHR 0x27]
               @ '' failed: No such file or directory''))
   \<and> extra (default_options\<lparr>extra := [''colour'']\<rparr>) \<noteq> []
   \<and> fst (single_result (model_env files) ''output.xml'' (default_options\<lparr>extra := [''colour'']\<rparr>) [])
       = Inl (DataError (''Reading XML source '' @ [CHR 0x27] @ ''output.xml'' @ [CHR 0x27]
               @ '' failed: TypeError''))
   \<and> open_source (model_env files) ''broken.xml''
       = Inr ([(Start, suite_elem)], Some (OtherError ''ParseError: no element found''))
   \<and> parse (model_env files) True None
         ([(Start, suite_elem)], Some (OtherError ''ParseError: no element found''))
         (new_handler (model_env files) (new_result ''broken.xml''))
       = Inl (OtherError ''ParseError: no element found'')
   \<and> fst (build (model_env files) ''broken.xml'' True None (new_result ''broken.xml'') [])
       = Inl (OtherError ''ParseError: no element found'')
   \<and> handle_events failing_env (apply_filter failing_env (choose_filter True None) (events suite_doc))
         (new_handler failing_env (new_result ''output.xml''))
       = Inl (OtherError ''ValueError: bad element'')
   \<and> parse failing_env True None (events suite_doc, None)
         (new_handler failing_env (new_result ''output.xml''))
       = Inl (OtherError ''ValueError: bad element'')"
proof -
  let ?env = "model_env files"
  let ?ok = "(new_result ''output.xml'')\<lparr>suite := to_suite suite_doc\<rparr>"
  let ?enoent = "IOError (Some ''No such file or directory'') ''[Errno 2] No such file or directory''"
  let ?perr = "OtherError ''ParseError: no element found''"
  let ?stream = "([(Start, suite_elem)], Some ?perr)"
  let ?h0 = "new_handler ?env (new_result ''broken.xml'')"
  let ?h1 = "\<lparr>stack = [(suite_elem, [])], roots = [], target = new_result ''broken.xml''\<rparr>"
  let ?verr = "OtherError ''ValueError: bad element''"
  have dopts: "extra default_options = []" "include_keywords default_options = True"
    "flattened_keywords default_options = None" "opt_rpa default_options = None"
    by (simp_all add: default_options_def)
  have b_ok: "fst (build ?env ''output.xml'' True None (new_result ''output.xml'') []) = Inr ?ok"
    by (simp add: model_defs doc_defs tree_defs)
  have nr: "\<And>src. \<lparr>r_source = src, rpa = None, suite = empty_suite\<rparr> = new_result src"
    by (simp add: new_result_def)
  note th_ok = single_result_all_or_nothing [where env = ?env and src = "''output.xml''"
      and opts = default_options and opened = "[]" and built = ?ok]
  from th_ok dopts b_ok nr have c_ok: "fst (single_result ?env ''output.xml'' default_options []) = Inr ?ok"
    by simp
  have o_missing: "open_source ?env ''missing.xml'' = Inl ?enoent"
    by (simp add: model_env_def files_def)
  note th_missing = single_result_all_or_nothing [where env = ?env and src = "''missing.xml''"
      and opts = default_options and opened = "[]" and e = ?enoent and incl = True and fl = None
      and r = "new_result ''missing.xml''" and msg = "''No such file or directory''"
      and str = "''[Errno 2] No such file or directory''"]
  from th_missing o_missing
  have b_missing: "fst (build ?env ''missing.xml'' True None (new_result ''missing.xml'') []) = Inl ?enoent"
    by blast
  from th_missing have etext_missing: "error_text ?env ?enoent = ''No such file or directory''"
    by blast
  have str: "\<And>src. source_str ?env src = src"
    by (simp add: model_env_def)
  from th_missing dopts b_missing nr etext_missing str
  have c_missing: "fst (single_result ?env ''missing.xml'' default_options [])
       = Inl (DataError (''Reading XML source '' @ [CHR 0x27] @ ''missing.xml'' @ [CHR 0x27]
               @ '' failed: No such file or directory''))"
    by simp
  have dopts2: "extra (default_options\<lparr>extra := [''colour'']\<rparr>) \<noteq> []"
    by simp
  have gm: "get_error_message ?env (OtherError ''TypeError'') = ''TypeError''"
    by (simp add: model_env_def)
  from single_result_all_or_nothing [where env = ?env and src = "''output.xml''"
      and opts = "default_options\<lparr>extra := [''colour'']\<rparr>" and opened = "[]"] dopts2 gm str
  have c_extra: "fst (single_result ?env ''output.xml'' (default_options\<lparr>extra := [''colour'']\<rparr>) [])
       = Inl (DataError (''Reading XML source '' @ [CHR 0x27] @ ''output.xml'' @ [CHR 0x27]
               @ '' failed: TypeError''))"
    by simp
  have o_broken: "open_source ?env ''broken.xml'' = Inr ?stream"
    by (simp add: model_env_def files_def)
  have he: "handle_events ?env (apply_filter ?env (choose_filter True None) (fst ?stream)) ?h0 = Inr ?h1"
    by (simp add: model_env_def choose_filter_def apply_filter_def builder_start_def)
  note th_broken = single_result_all_or_nothing [where env = ?env and src = "''broken.xml''"
      and e = ?perr and incl = True and fl = None and r = "new_result ''broken.xml''"
      and stream = ?stream and h = ?h0 and h' = ?h1 and opened = "[]"]
  have sn: "snd ?stream = Some ?perr" by simp
  from th_broken sn he have p_broken: "parse ?env True None ?stream ?h0 = Inl ?perr"
    by blast
  from th_broken o_broken p_broken
  have b_broken: "fst (build ?env ''broken.xml'' True None (new_result ''broken.xml'') []) = Inl ?perr"
    by blast
  have hf: "handle_events failing_env
        (apply_filter failing_env (choose_filter True None) (fst (events suite_doc, None :: exn option)))
        (new_handler failing_env (new_result ''output.xml'')) = Inl ?verr"
    by (simp add: failing_env_def model_env_def choose_filter_def apply_filter_def suite_doc_def)
  from single_result_all_or_nothing [where env = failing_env and e = ?verr and incl = True
      and fl = None and stream = "(events suite_doc, None)"
      and h = "new_handler failing_env (new_result ''output.xml'')"] hf
  have p_fail: "parse failing_env True None (events suite_doc, None)
         (new_handler failing_env (new_result ''output.xml'')) = Inl ?verr"
    by blast
  from hf have hf': "handle_events failing_env
        (apply_filter failing_env (choose_filter True None) (events suite_doc))
        (new_handler failing_env (new_result ''output.xml'')) = Inl ?verr"
    by simp
  from dopts(1) b_ok c_ok o_missing b_missing c_missing dopts2 c_extra o_broken p_broken b_broken hf' p_fail
  show ?thesis by blast
qed

text \<open>
  C7 as stated says that the reported error carries the message of the cause. Here
  reading the source raises an \<open>IOError\<close> with the message \<open>not readable\<close> and without an
  error number, so that its \<open>strerror\<close> is \<open>None\<close>: the data error names the source and
  says \<open>failed: None\<close>, and the message of the cause is not reported.
\<close>

theorem single_result_strerror_counterexample:
  "open_source unreadable_env ''output.xml'' = Inl (IOError None ''not readable'')
   \<and> fst (build unreadable_env ''output.xml'' True None (new_result ''output.xml'') [])
       = Inl (IOError None ''not readable'')
   \<and> fst (single_result unreadable_env ''output.xml'' default_options [])
       = Inl (DataError (''Reading XML source '' @ [CHR 0x27] @ ''output.xml'' @ [CHR 0x27]
               @ '' failed: None''))"
  by (simp add: unreadable_env_def model_env_def single_result_def build_def default_options_def
      reading_failed_def error_text_def)

text \<open>
  C8, as amended. \<open>_parse\<close> takes one of three branches, so at most one filter wraps the
  event source: the omission filter exactly when keywords are not included, whether or
  not flattening patterns are given, and the flattening filter exactly when keywords are
  included and the list of patterns is neither \<open>None\<close> nor empty; otherwise the events
  reach the builder as they are.
\<close>

theorem parse_filter_choice:
  "(choose_filter incl fl = OmitKeywords \<longleftrightarrow> \<not> incl)
   \<and> ((\<exists>p. choose_filter incl fl = FlattenKeywords p) \<longleftrightarrow> incl \<and> fl \<noteq> None \<and> fl \<noteq> Some [])
   \<and> (\<not> incl \<longrightarrow>
        apply_filter env (choose_filter incl fl) evs = yielded (omit_keywords evs))
   \<and> (incl \<and> fl = Some p \<and> p \<noteq> [] \<longrightarrow>
        apply_filter env (choose_filter incl fl) evs
          = yielded (flatten_keywords (env_escape env) (env_matchers env) evs p))
   \<and> (incl \<and> (fl = None \<or> fl = Some []) \<longrightarrow>
        apply_filter env (choose_filter incl fl) evs = evs)"
  by (auto simp add: choose_filter_def apply_filter_def split: option.splits)

text \<open>C8 at the three branches, on the events of a test with a \<open>for\<close> loop.\<close>

theorem parse_filter_choice_witness:
  "\<not> include_keywords report_options
   \<and> choose_filter (include_keywords report_options) (flattened_keywords report_options)
       = OmitKeywords
   \<and> apply_filter (model_env files)
         (choose_filter (include_keywords report_options) (flattened_keywords report_options))
         (events loop_doc)
       = yielded (omit_keywords (events loop_doc))
   \<and> include_keywords flatten_options \<and> flattened_keywords flatten_options = Some [''FOR'']
   \<and> [''FOR''] \<noteq> []
   \<and> choose_filter (include_keywords flatten_options) (flattened_keywords flatten_options)
       = FlattenKeywords [''FOR'']
   \<and> apply_filter (model_env files)
         (choose_filter (include_keywords flatten_options) (flattened_keywords flatten_options))
         (events loop_doc)
       = yielded (flatten_keywords html_escape for_matchers_of (events loop_doc) [''FOR''])
   \<and> include_keywords default_options \<and> flattened_keywords default_options = None
   \<and> apply_filter (model_env files)
         (choose_filter (include_keywords default_options) (flattened_keywords default_options))
         (events loop_doc)
       = events loop_doc"
proof -
  let ?env = "model_env files"
  let ?evs = "events loop_doc"
  have e: "env_escape ?env = html_escape" "env_matchers ?env = for_matchers_of"
    by (simp_all add: model_env_def)
  have r: "\<not> include_keywords report_options"
    and f: "include_keywords flatten_options" "flattened_keywords flatten_options = Some [''FOR'']"
      "[''FOR''] \<noteq> []"
    and d: "include_keywords default_options" "flattened_keywords default_options = None"
    by (simp_all add: report_options_def flatten_options_def default_options_def)
  note th1 = parse_filter_choice [where incl = "include_keywords report_options"
      and fl = "flattened_keywords report_options" and env = ?env and evs = ?evs]
  from th1 r have c1: "choose_filter (include_keywords report_options)
        (flattened_keywords report_options) = OmitKeywords"
    and c2: "apply_filter ?env
        (choose_filter (include_keywords report_options) (flattened_keywords report_options)) ?evs
       = yielded (omit_keywords ?evs)"
    by blast+
  note th2 = parse_filter_choice [where incl = "include_keywords flatten_options"
      and fl = "flattened_keywords flatten_options" and env = ?env and evs = ?evs
      and p = "[''FOR'']"]
  from th2 f have "apply_filter ?env
        (choose_filter (include_keywords flatten_options) (flattened_keywords flatten_options)) ?evs
       = yielded (flatten_keywords (env_escape ?env) (env_matchers ?env) ?evs [''FOR''])"
    by blast
  with e have c3: "apply_filter ?env
        (choose_filter (include_keywords flatten_options) (flattened_keywords flatten_options)) ?evs
       = yielded (flatten_keywords html_escape for_matchers_of ?evs [''FOR''])"
    by simp
  from th2 f obtain p where "choose_filter (include_keywords flatten_options)
        (flattened_keywords flatten_options) = FlattenKeywords p"
    by auto
  with f have c4: "choose_filter (include_keywords flatten_options)
        (flattened_keywords flatten_options) = FlattenKeywords [''FOR'']"
    by (auto simp add: choose_filter_def)
  from parse_filter_choice [where incl = "include_keywords default_options"
      and fl = "flattened_keywords default_options" and env = ?env and evs = ?evs] d
  have c5: "apply_filter ?env
        (choose_filter (include_keywords default_options) (flattened_keywords default_options)) ?evs
       = ?evs"
    by blast
  from r c1 c2 f c4 c3 d c5 show ?thesis by blast
qed

text \<open>
  C8 as stated says that omission is not applied when flattening is requested. With
  keywords excluded and a flattening pattern given, the omission filter is applied and
  the flattening filter is not: what reaches the builder is the test without its loop,
  and not the test with the flattened loop.
\<close>

theorem parse_filter_choice_counterexample:
  "flattened_keywords report_options = Some [''FOR'']
   \<and> choose_filter (include_keywords report_options) (flattened_keywords report_options)
       = OmitKeywords
   \<and> apply_filter (model_env files)
         (choose_filter (include_keywords report_options) (flattened_keywords report_options))
         (events loop_doc)
       = [(Start, test_elem), (End, test_elem)]
   \<and> yielded (omit_keywords (events loop_doc)) = [(Start, test_elem), (End, test_elem)]
   \<and> yielded (flatten_keywords html_escape for_matchers_of (events loop_doc) [''FOR''])
       = [(Start, test_elem), (Start, for_elem), (Start, msg_elem ''m1''), (End, msg_elem ''m1''),
          (Start, msg_elem ''m2''), (End, msg_elem ''m2''),
          (Start, status_elem ''done''),
          (End, status_elem ''*HTML* done<hr><i>Content flattened.</i>''), (End, for_elem),
          (End, test_elem)]"
  by (simp add: report_options_def default_options_def choose_filter_def apply_filter_def
      example_defs flatten_defs for_matchers_def omit_keywords_def omit_step_def omit_def get_def
      create_flattened_message_def startswith_def html_escape_def)

section \<open>Properties of the detail-stripping pass\<close>

lemma visit_suite_all_suites:
  "x \<in> set (all_suites (visit_suite s)) \<Longrightarrow> s_setup x = None \<and> s_teardown x = None"
  by (induction s arbitrary: x) (auto simp add: start_suite_def)

lemma visit_suite_all_tests: "t \<in> set (all_tests (visit_suite s)) \<Longrightarrow> body t = []"
  by (induction s arbitrary: t) (auto simp add: start_suite_def visit_test_def)

lemma visit_suite_frame: "frame_of (visit_suite s) = frame_of s"
  by (induction s) (auto simp add: start_suite_def visit_test_def)

text \<open>
  C9. After the pass every suite of the tree has no setup and no teardown and every test
  has an empty body; the tree has as many suites and tests as before, and everything
  else in it (the element and the other child nodes of every suite, the element, the
  setup, the teardown and the other child nodes of every test) is as before. When
  keywords are excluded, the pass replaces the suite of the result by the visited suite
  and leaves the other attributes of the result alone; when keywords are included, the
  result is unchanged. \<open>build\<close> returns the result of the pass, which is run after the
  propagation of suite teardown failures.
\<close>

theorem remove_keywords_frame:
  "(\<forall>x \<in> set (all_suites (visit_suite s)). s_setup x = None \<and> s_teardown x = None)
   \<and> (\<forall>t \<in> set (all_tests (visit_suite s)). body t = [])
   \<and> frame_of (visit_suite s) = frame_of s
   \<and> length (all_suites (visit_suite s)) = length (all_suites s)
   \<and> length (all_tests (visit_suite s)) = length (all_tests s)
   \<and> remove_keywords_pass False r = r\<lparr>suite := visit_suite (suite r)\<rparr>
   \<and> remove_keywords_pass True r = r
   \<and> (open_source env src = Inr stream \<and> parse env incl fl stream (new_handler env fresh) = Inr h \<longrightarrow>
        fst (build env src incl fl fresh opened)
          = Inr (remove_keywords_pass incl
                   (handle_suite_teardown_failures env (handler_result env h))))"
proof -
  have p1: "\<forall>x \<in> set (all_suites (visit_suite s)). s_setup x = None \<and> s_teardown x = None"
    using visit_suite_all_suites by blast
  have p2: "\<forall>t \<in> set (all_tests (visit_suite s)). body t = []"
    using visit_suite_all_tests by blast
  have p3: "length (all_suites (visit_suite s)) = length (all_suites s)"
    by (induction s) (auto simp add: start_suite_def length_concat comp_def cong: map_cong)
  have p4: "length (all_tests (visit_suite s)) = length (all_tests s)"
    by (induction s) (auto simp add: start_suite_def length_concat comp_def cong: map_cong)
  have p5: "remove_keywords_pass False r = r\<lparr>suite := visit_suite (suite r)\<rparr>"
    and p6: "remove_keywords_pass True r = r"
    by (simp_all add: remove_keywords_pass_def)
  have p7: "open_source env src = Inr stream \<and> parse env incl fl stream (new_handler env fresh) = Inr h \<longrightarrow>
        fst (build env src incl fl fresh opened)
          = Inr (remove_keywords_pass incl
                   (handle_suite_teardown_failures env (handler_result env h)))"
    by (simp add: build_def)
  from p1 p2 visit_suite_frame [of s] p3 p4 p5 p6 p7 show ?thesis by blast
qed

text \<open>
  C9 at a suite with a teardown and a test with one keyword, built with keywords excluded.
\<close>

theorem remove_keywords_frame_witness:
  "visit_suite (to_suite suite_doc) \<in> set (all_suites (visit_suite (to_suite suite_doc)))
   \<and> s_teardown (to_suite suite_doc) = Some (Node teardown_kw [Node (status_elem ''td'') []])
   \<and> s_setup (visit_suite (to_suite suite_doc)) = None
   \<and> s_teardown (visit_suite (to_suite suite_doc)) = None
   \<and> visit_test (to_test test_node) \<in> set (all_tests (visit_suite (to_suite suite_doc)))
   \<and> body (to_test test_node) = [Node log_kw [Node (status_elem ''ok'') []]]
   \<and> body (visit_test (to_test test_node)) = []
   \<and> open_source (model_env files) ''output.xml'' = Inr (events suite_doc, None)
   \<and> parse (model_env files) False None (events suite_doc, None)
         (new_handler (model_env files) (new_result ''output.xml''))
       = Inr \<lparr>stack = [], roots = [stripped_doc], target = new_result ''output.xml''\<rparr>
   \<and> fst (build (model_env files) ''output.xml'' False None (new_result ''output.xml'') [])
       = Inr ((new_result ''output.xml'')\<lparr>suite := visit_suite (to_suite stripped_doc)\<rparr>)"
proof -
  let ?env = "model_env files"
  let ?s = "to_suite suite_doc"
  let ?h = "\<lparr>stack = [], roots = [stripped_doc], target = new_result ''output.xml''\<rparr>"
  note th = remove_keywords_frame [where s = ?s and env = ?env and src = "''output.xml''"
      and stream = "(events suite_doc, None)" and incl = False and fl = None
      and fresh = "new_result ''output.xml''" and h = ?h and opened = "[]"
      and r = "handle_suite_teardown_failures ?env (handler_result ?env ?h)"]
  have m1: "visit_suite ?s \<in> set (all_suites (visit_suite ?s))"
    by (cases "visit_suite ?s") simp
  have td: "s_teardown ?s = Some (Node teardown_kw [Node (status_elem ''td'') []])"
    by (simp add: doc_defs tree_defs)
  from th m1 have c1: "s_setup (visit_suite ?s) = None" and c2: "s_teardown (visit_suite ?s) = None"
    by blast+
  have m2: "visit_test (to_test test_node) \<in> set (all_tests (visit_suite ?s))"
    by (simp add: suite_doc_def test_node_def test_elem_def teardown_kw_def status_elem_def
        start_suite_def)
  have b0: "body (to_test test_node) = [Node log_kw [Node (status_elem ''ok'') []]]"
    by (simp add: doc_defs tree_defs)
  from th m2 have c3: "body (visit_test (to_test test_node)) = []"
    by blast
  have o: "open_source ?env ''output.xml'' = Inr (events suite_doc, None)"
    by (simp add: model_env_def files_def)
  have p: "parse ?env False None (events suite_doc, None) (new_handler ?env (new_result ''output.xml''))
      = Inr ?h"
    by (simp add: model_defs doc_defs omit_keywords_def omit_step_def omit_def get_def)
  from th o p have "fst (build ?env ''output.xml'' False None (new_result ''output.xml'') [])
      = Inr (remove_keywords_pass False (handle_suite_teardown_failures ?env (handler_result ?env ?h)))"
    by blast
  also from th have "remove_keywords_pass False (handle_suite_teardown_failures ?env (handler_result ?env ?h))
      = (handle_suite_teardown_failures ?env (handler_result ?env ?h))
          \<lparr>suite := visit_suite (suite (handle_suite_teardown_failures ?env (handler_result ?env ?h)))\<rparr>"
    by blast
  also have "\<dots> = (new_result ''output.xml'')\<lparr>suite := visit_suite (to_suite stripped_doc)\<rparr>"
    by (simp add: model_env_def builder_result_def doc_defs tree_defs new_result_def)
  finally have c4: "fst (build ?env ''output.xml'' False None (new_result ''output.xml'') [])
      = Inr ((new_result ''output.xml'')\<lparr>suite := visit_suite (to_suite stripped_doc)\<rparr>)" .
  from m1 td c1 c2 m2 b0 c3 o p c4 show ?thesis by blast
qed

section \<open>Streaming omission and stripping of the finished tree\<close>

subsection \<open>The modelled tree builder rebuilds the document\<close>

lemma handle_events_append_ok:
  "handle_events env xs h = Inr h' \<Longrightarrow> handle_events env (xs @ ys) h = handle_events env ys h'"
  by (induction xs arbitrary: h) (auto split: sum.splits if_splits)

lemma builder_forest:
  assumes "\<And>t b. t \<in> set ts \<Longrightarrow> handle_events env (events t) b = Inr (add_node t b)"
  shows "handle_events env (concat (map events ts)) b = Inr (fold add_node ts b)"
  using assms
proof (induction ts arbitrary: b)
  case Nil
  then show ?case by simp
next
  case (Cons t ts)
  from Cons.prems [of t b] have "handle_events env (events t) b = Inr (add_node t b)" by simp
  from handle_events_append_ok [OF this, of "concat (map events ts)"] Cons.IH [of "add_node t b"]
    Cons.prems
  show ?case by simp
qed

lemma fold_add_node_top:
  "fold add_node ts (b\<lparr>stack := (e, cs) # up\<rparr>) = b\<lparr>stack := (e, rev ts @ cs) # up\<rparr>"
  by (induction ts arbitrary: cs) (simp_all add: add_node_def)

lemma builder_tree:
  "uses_builder env \<Longrightarrow> handle_events env (events t) b = Inr (add_node t b)"
proof (induction t arbitrary: b)
  case (Node elem cs)
  let ?b1 = "b\<lparr>stack := (elem, []) # stack b\<rparr>"
  from builder_forest [of cs env ?b1] Node
  have inner: "handle_events env (concat (map events cs)) ?b1 = Inr (fold add_node cs ?b1)"
    by simp
  have top: "fold add_node cs ?b1 = b\<lparr>stack := (elem, rev cs) # stack b\<rparr>"
    using fold_add_node_top [where ts = cs and b = b and e = elem and cs = "[]" and up = "stack b"]
    by simp
  have "handle_events env (events (Node elem cs)) b
      = handle_events env (concat (map events cs) @ [(End, elem)]) ?b1"
    using Node.prems by (simp add: uses_builder_def builder_start_def)
  also have "\<dots> = handle_events env [(End, elem)] (b\<lparr>stack := (elem, rev cs) # stack b\<rparr>)"
    using handle_events_append_ok [OF inner, of "[(End, elem)]"] top by simp
  also have "\<dots> = Inr (add_node (Node elem cs) b)"
    using Node.prems
    by (cases "stack b") (auto simp add: uses_builder_def builder_end_def add_node_def)
  finally show ?case .
qed

lemma fold_add_node_roots:
  "stack b = [] \<Longrightarrow> fold add_node ts b = b\<lparr>roots := roots b @ ts\<rparr>"
  by (induction ts arbitrary: b) (simp_all add: add_node_def)

lemma builder_document:
  "uses_builder env \<Longrightarrow>
   handle_events env (events_forest f) \<lparr>stack = [], roots = [], target = r\<rparr>
     = Inr \<lparr>stack = [], roots = f, target = r\<rparr>"
  using builder_forest [of f env "\<lparr>stack = [], roots = [], target = r\<rparr>"] builder_tree [of env]
    fold_add_node_roots [of "\<lparr>stack = [], roots = [], target = r\<rparr>" f]
  by (simp add: events_forest_def)

subsection \<open>Building the tree commutes with stripping\<close>

lemma strip_omitted_cases:
  "strip_omitted n = (if omit (root n) then [] else [strip_node n])"
  by (cases n) (simp add: strip_node_def)

lemma root_strip_node: "root (strip_node n) = root n"
  by (simp add: strip_node_def)

lemma filter_strip:
  assumes "\<And>n. P n = Q (root n)"
  shows "filter P (concat (map strip_omitted cs)) = concat (map strip_omitted (filter P cs))"
  using assms by (induction cs) (simp_all add: strip_omitted_cases root_strip_node)

lemma filter_strip_kept:
  assumes "\<And>n. P n = Q (root n)" and "\<And>e. Q e \<Longrightarrow> \<not> omit e"
  shows "filter P (concat (map strip_omitted cs)) = map strip_node (filter P cs)"
  using assms by (induction cs) (auto simp add: strip_omitted_cases root_strip_node)

lemma find_strip_kept:
  assumes "\<And>n. P n = Q (root n)" and "\<And>e. Q e \<Longrightarrow> \<not> omit e"
  shows "find P (concat (map strip_omitted cs)) = strip_option (find P cs)"
  using assms
  by (induction cs) (auto simp add: strip_omitted_cases root_strip_node strip_option_def)

lemma find_strip_omitted:
  assumes "\<And>n. P n = Q (root n)" and "\<And>e. Q e \<Longrightarrow> omit e"
  shows "find P (concat (map strip_omitted cs)) = strip_option (find P cs)"
proof -
  have l: "find P (concat (map strip_omitted cs)) = None"
    using assms by (induction cs) (auto simp add: strip_omitted_cases root_strip_node)
  have r: "strip_option (find P cs) = None"
  proof (cases "find P cs")
    case None
    then show ?thesis by (simp add: strip_option_def)
  next
    case (Some n)
    then have "P n" by (auto simp add: find_Some_iff)
    with assms have "omit (root n)" by simp
    with Some show ?thesis by (simp add: strip_option_def strip_omitted_cases)
  qed
  from l r show ?thesis by simp
qed

lemma setup_is_omitted: "is_kw_type ''SETUP'' n \<Longrightarrow> omit (root n)"
  by (simp add: is_kw_type_def omit_def)

lemma teardown_is_kept: "is_kw_type ''TEARDOWN'' n \<Longrightarrow> \<not> omit (root n)"
  by (simp add: is_kw_type_def omit_def)

lemma find_setup_strip:
  "find (is_kw_type ''SETUP'') (concat (map strip_omitted cs))
     = strip_option (find (is_kw_type ''SETUP'') cs)"
  by (rule find_strip_omitted
      [where Q = "\<lambda>e. tag e = ''kw'' \<and> get e ''type'' = Some ''SETUP''"])
    (simp_all add: is_kw_type_def omit_def)

lemma find_teardown_strip:
  "find (is_kw_type ''TEARDOWN'') (concat (map strip_omitted cs))
     = strip_option (find (is_kw_type ''TEARDOWN'') cs)"
  by (rule find_strip_kept
      [where Q = "\<lambda>e. tag e = ''kw'' \<and> get e ''type'' = Some ''TEARDOWN''"])
    (simp_all add: is_kw_type_def omit_def)

lemma to_test_strip: "to_test (strip_node n) = strip_test (to_test n)"
proof -
  have step: "filter is_step (concat (map strip_omitted (child_nodes n)))
      = concat (map strip_omitted (filter is_step (child_nodes n)))"
    by (rule filter_strip
        [where Q = "\<lambda>e. tag e \<in> set containers
            \<and> \<not> (tag e = ''kw'' \<and> get e ''type'' = Some ''SETUP'')
            \<and> \<not> (tag e = ''kw'' \<and> get e ''type'' = Some ''TEARDOWN'')"])
      (simp add: is_step_def is_kw_type_def)
  have other: "filter (\<lambda>c. tag (root c) \<notin> set containers) (concat (map strip_omitted (child_nodes n)))
      = concat (map strip_omitted (filter (\<lambda>c. tag (root c) \<notin> set containers) (child_nodes n)))"
    by (rule filter_strip [where Q = "\<lambda>e. tag e \<notin> set containers"]) simp
  show ?thesis
    using step other
    by (simp add: to_test_def strip_test_def strip_node_def find_setup_strip find_teardown_strip)
qed

lemma to_suite_strip: "to_suite (strip_node n) = strip_suite (to_suite n)"
proof (induction n)
  case (Node elem cs)
  have suites: "filter (\<lambda>c. tag (root c) = ''suite'') (concat (map strip_omitted cs))
      = map strip_node (filter (\<lambda>c. tag (root c) = ''suite'') cs)"
    by (rule filter_strip_kept [where Q = "\<lambda>e. tag e = ''suite''"]) (simp_all add: omit_def)
  have tests: "filter (\<lambda>c. tag (root c) = ''test'') (concat (map strip_omitted cs))
      = map strip_node (filter (\<lambda>c. tag (root c) = ''test'') cs)"
    by (rule filter_strip_kept [where Q = "\<lambda>e. tag e = ''test''"]) (simp_all add: omit_def)
  have other: "filter (\<lambda>c. tag (root c) \<notin> set (''suite'' # ''test'' # containers))
        (concat (map strip_omitted cs))
      = concat (map strip_omitted
          (filter (\<lambda>c. tag (root c) \<notin> set (''suite'' # ''test'' # containers)) cs))"
    by (rule filter_strip [where Q = "\<lambda>e. tag e \<notin> set (''suite'' # ''test'' # containers)"]) simp
  have rec: "map (to_suite \<circ> strip_node) (filter (\<lambda>c. tag (root c) = ''suite'') cs)
      = map (strip_suite \<circ> to_suite) (filter (\<lambda>c. tag (root c) = ''suite'') cs)"
    using Node.IH by simp
  have sn: "strip_node (Node elem cs) = Node elem (concat (map strip_omitted cs))"
    by (simp add: strip_node_def)
  show ?case
    unfolding sn
    using suites tests other rec
    by (simp add: find_setup_strip find_teardown_strip to_test_strip comp_def)
qed

lemma find_suite_strip:
  "find (\<lambda>n. tag (root n) = ''suite'') (concat (map strip_omitted f))
     = map_option strip_node (find (\<lambda>n. tag (root n) = ''suite'') f)"
  by (induction f) (auto simp add: strip_omitted_cases root_strip_node omit_def)

subsection \<open>No omitted node is left\<close>

lemma omit_free_strip: "list_all omit_free (strip_omitted t)"
proof (induction t)
  case (Node elem cs)
  then have "list_all omit_free (concat (map strip_omitted cs))"
    by (induction cs) simp_all
  then show ?case by simp
qed

lemma omit_free_strip_forest: "list_all omit_free (concat (map strip_omitted ts))"
  by (induction ts) (simp_all add: omit_free_strip)

lemma omit_free_strip_option: "option_all omit_free (strip_option x)"
proof (cases x)
  case None
  then show ?thesis by (simp add: option_all_def strip_option_def)
next
  case (Some n)
  with omit_free_strip [of n] show ?thesis
    by (cases "strip_omitted n") (simp_all add: option_all_def strip_option_def)
qed

lemma strip_test_omit_free: "test_omit_free (strip_test t)"
  by (simp add: test_omit_free_def strip_test_def omit_free_strip_option omit_free_strip_forest)

lemma strip_suite_omit_free: "suite_omit_free (strip_suite s)"
proof (induction s)
  case (Suite e su td ss ts other)
  then have rec: "list_all suite_omit_free (map strip_suite ss)"
    by (simp add: list_all_iff)
  have ts: "list_all test_omit_free (map strip_test ts)"
    by (simp add: list_all_iff strip_test_omit_free)
  from rec ts show ?case
    by (simp add: omit_free_strip_option omit_free_strip_forest)
qed

lemma fail_status_omit_free: "omit_free n \<Longrightarrow> omit_free (fail_status n)"
  by (cases n) (auto simp add: omit_def get_def)

lemma fail_test_omit_free: "test_omit_free t \<Longrightarrow> test_omit_free (fail_test t)"
  by (simp add: test_omit_free_def fail_test_def list_all_iff fail_status_omit_free)

lemma fail_all_tests_omit_free: "suite_omit_free s \<Longrightarrow> suite_omit_free (fail_all_tests s)"
  by (induction s) (simp add: list_all_iff fail_test_omit_free)

lemma teardown_failures_omit_free: "suite_omit_free s \<Longrightarrow> suite_omit_free (teardown_failures s)"
proof (induction s)
  case (Suite e su td ss ts other)
  then have inner: "suite_omit_free (Suite e su td (map teardown_failures ss) ts other)"
    by (simp add: list_all_iff)
  show ?case
  proof (cases td)
    case None
    with inner show ?thesis by simp
  next
    case (Some n)
    with inner fail_all_tests_omit_free [OF inner] show ?thesis
      by (cases "node_failed n") (simp_all del: fail_all_tests.simps suite_omit_free.simps)
  qed
qed

lemma visit_suite_omit_free: "suite_omit_free s \<Longrightarrow> suite_omit_free (visit_suite s)"
  by (induction s)
    (simp add: start_suite_def list_all_iff visit_test_def test_omit_free_def option_all_def)

subsection \<open>Stripping commutes with the propagation of teardown failures\<close>

lemma find_satisfies: "find P xs = Some x \<Longrightarrow> P x"
  by (auto simp add: find_Some_iff)

lemma to_suite_teardown_typed: "teardown_typed (to_suite n)"
proof (induction n)
  case (Node elem cs)
  have td: "option_all (is_kw_type ''TEARDOWN'') (find (is_kw_type ''TEARDOWN'') cs)"
    by (cases "find (is_kw_type ''TEARDOWN'') cs") (auto simp add: option_all_def dest: find_satisfies)
  from Node.IH have "list_all teardown_typed (map to_suite (filter (\<lambda>c. tag (root c) = ''suite'') cs))"
    by (simp add: list_all_iff)
  with td show ?case by simp
qed

lemma node_failed_strip: "node_failed (strip_node n) = node_failed n"
proof -
  have "list_ex (\<lambda>c. tag (root c) = ''status'' \<and> get (root c) ''status'' = Some ''FAIL'')
          (concat (map strip_omitted cs))
        = list_ex (\<lambda>c. tag (root c) = ''status'' \<and> get (root c) ''status'' = Some ''FAIL'') cs"
    for cs
    by (induction cs) (auto simp add: strip_omitted_cases root_strip_node omit_def)
  then show ?thesis by (simp add: node_failed_def strip_node_def)
qed

lemma fail_status_strip: "strip_omitted (fail_status n) = map fail_status (strip_omitted n)"
  by (cases n) (auto simp add: omit_def get_def)

lemma fail_status_strip_forest:
  "concat (map (strip_omitted \<circ> fail_status) ns) = map fail_status (concat (map strip_omitted ns))"
  by (induction ns) (simp_all add: fail_status_strip)

lemma fail_test_strip: "strip_test (fail_test t) = fail_test (strip_test t)"
  by (simp add: strip_test_def fail_test_def fail_status_strip_forest)

lemma fail_all_tests_strip: "strip_suite (fail_all_tests s) = fail_all_tests (strip_suite s)"
  by (induction s) (simp add: fail_test_strip)

lemma teardown_failures_strip:
  "teardown_typed s \<Longrightarrow> strip_suite (teardown_failures s) = teardown_failures (strip_suite s)"
proof (induction s)
  case (Suite e su td ss ts other)
  let ?inner = "Suite e su td (map teardown_failures ss) ts other"
  from Suite have rec: "map strip_suite (map teardown_failures ss)
      = map teardown_failures (map strip_suite ss)"
    by (simp add: list_all_iff)
  have inner: "strip_suite ?inner
      = Suite e (strip_option su) (strip_option td) (map teardown_failures (map strip_suite ss))
          (map strip_test ts) (concat (map strip_omitted other))"
    using rec by (simp del: map_map)
  show ?case
  proof (cases td)
    case None
    then have l: "teardown_failures (Suite e su td ss ts other) = ?inner"
      by simp
    from None have r: "teardown_failures (strip_suite (Suite e su td ss ts other))
        = Suite e (strip_option su) (strip_option td) (map teardown_failures (map strip_suite ss))
            (map strip_test ts) (concat (map strip_omitted other))"
      by (simp add: strip_option_def del: map_map)
    from l r inner show ?thesis by (simp only:)
  next
    case (Some n)
    with Suite.prems have "is_kw_type ''TEARDOWN'' n" by (simp add: option_all_def)
    then have "\<not> omit (root n)" by (rule teardown_is_kept)
    with Some have so: "strip_option td = Some (strip_node n)"
      by (simp add: strip_option_def strip_omitted_cases)
    from Some have l: "teardown_failures (Suite e su td ss ts other)
        = (if node_failed n then fail_all_tests ?inner else ?inner)"
      by (simp del: fail_all_tests.simps)
    from so have r: "teardown_failures (strip_suite (Suite e su td ss ts other))
        = (if node_failed n then fail_all_tests (strip_suite ?inner) else strip_suite ?inner)"
      unfolding inner
      by (simp add: node_failed_strip del: fail_all_tests.simps map_map)
    show ?thesis
      unfolding l r
      by (simp add: fail_all_tests_strip del: fail_all_tests.simps strip_suite.simps)
  qed
qed

subsection \<open>The two ways to build\<close>

lemma parse_omitted_document:
  "parse env False fl (events_forest f, err) h
     = parse env True None (events_forest (concat (map strip_omitted f)), err) h"
  by (simp add: parse_def choose_filter_def apply_filter_def omit_keywords_strips
      split: sum.splits)

lemma model_env_uses_builder: "uses_builder (model_env table)"
  by (simp add: uses_builder_def model_env_def)

lemma model_parse_document:
  "parse (model_env table) True None (events_forest f, None) \<lparr>stack = [], roots = [], target = r\<rparr>
     = Inr \<lparr>stack = [], roots = f, target = r\<rparr>"
  using builder_document [OF model_env_uses_builder, of table f r]
  by (simp add: parse_def choose_filter_def apply_filter_def)

lemma model_build_plain:
  assumes "table src = Inr (events_forest f, None)"
    and "find (\<lambda>n. tag (root n) = ''suite'') f = Some n"
  shows "fst (build (model_env table) src True None r opened)
           = Inr (r\<lparr>suite := teardown_failures (to_suite n)\<rparr>)"
proof -
  have nh: "new_handler (model_env table) r = \<lparr>stack = [], roots = [], target = r\<rparr>"
    and os: "open_source (model_env table) src = Inr (events_forest f, None)"
    using assms(1) by (simp_all add: model_env_def)
  show ?thesis
    using assms(2) model_parse_document [of table f r]
    by (simp add: build_def nh os remove_keywords_pass_def)
      (simp add: model_env_def builder_result_def)
qed

lemma model_build_omitted:
  assumes "table src = Inr (events_forest f, None)"
    and "find (\<lambda>n. tag (root n) = ''suite'') f = Some n"
  shows "fst (build (model_env table) src False None r opened)
           = Inr (r\<lparr>suite := visit_suite (teardown_failures (strip_suite (to_suite n)))\<rparr>)"
proof -
  have nh: "new_handler (model_env table) r = \<lparr>stack = [], roots = [], target = r\<rparr>"
    and os: "open_source (model_env table) src = Inr (events_forest f, None)"
    using assms(1) by (simp_all add: model_env_def)
  have fs: "find (\<lambda>n. tag (root n) = ''suite'') (concat (map strip_omitted f)) = Some (strip_node n)"
    using assms(2) by (simp add: find_suite_strip)
  have "parse (model_env table) False None (events_forest f, None) \<lparr>stack = [], roots = [], target = r\<rparr>
      = Inr \<lparr>stack = [], roots = concat (map strip_omitted f), target = r\<rparr>"
    using model_parse_document [of table "concat (map strip_omitted f)" r]
    by (simp add: parse_omitted_document)
  then show ?thesis
    using fs
    by (simp add: build_def nh os remove_keywords_pass_def)
      (simp add: model_env_def builder_result_def to_suite_strip)
qed

text \<open>
  C6, as amended. For every well-formed document and every element handler, parsing
  with the omission filter gives what parsing the document without its omitted subtrees
  gives with no filter. With the modelled tree builder, building with keywords included
  gives the tree of the document after the propagation of teardown failures, and
  building with keywords excluded gives that same tree with the omitted node kinds
  stripped from it and then passed through the detail-stripping pass, which also removes
  the setup and teardown of every suite and empties every test body; the tree it gives
  holds no \<open>kw\<close>, \<open>for\<close> or \<open>if\<close> node whose type is not \<open>TEARDOWN\<close>.
\<close>

theorem omission_is_prestripping:
  "parse env False fl (events_forest f, err) h
     = parse env True None (events_forest (concat (map strip_omitted f)), err) h
   \<and> (table src = Inr (events_forest f, None)
       \<and> find (\<lambda>n. tag (root n) = ''suite'') f = Some n \<longrightarrow>
       fst (build (model_env table) src True None r opened)
         = Inr (r\<lparr>suite := teardown_failures (to_suite n)\<rparr>)
       \<and> fst (build (model_env table) src False None r opened)
         = Inr (r\<lparr>suite := visit_suite (strip_suite (teardown_failures (to_suite n)))\<rparr>)
       \<and> suite_omit_free (visit_suite (strip_suite (teardown_failures (to_suite n)))))"
proof -
  have com: "strip_suite (teardown_failures (to_suite n))
      = teardown_failures (strip_suite (to_suite n))"
    using teardown_failures_strip [OF to_suite_teardown_typed] .
  have sf: "suite_omit_free (visit_suite (strip_suite (teardown_failures (to_suite n))))"
    by (intro visit_suite_omit_free strip_suite_omit_free)
  from parse_omitted_document [of env fl f err h] model_build_plain [of table src f n r opened]
    model_build_omitted [of table src f n r opened] sf com
  show ?thesis by simp
qed

text \<open>C6 at a suite with a test that runs a keyword and with a passing teardown.\<close>

theorem omission_is_prestripping_witness:
  "files ''output.xml'' = Inr (events_forest [suite_doc], None)
   \<and> find (\<lambda>n. tag (root n) = ''suite'') [suite_doc] = Some suite_doc
   \<and> fst (build (model_env files) ''output.xml'' True None (new_result ''output.xml'') [])
       = Inr ((new_result ''output.xml'')\<lparr>suite := to_suite suite_doc\<rparr>)
   \<and> fst (build (model_env files) ''output.xml'' False None (new_result ''output.xml'') [])
       = Inr ((new_result ''output.xml'')\<lparr>suite := visit_suite (to_suite stripped_doc)\<rparr>)
   \<and> suite_omit_free (visit_suite (to_suite stripped_doc))
   \<and> strip_suite (to_suite suite_doc) = to_suite stripped_doc
   \<and> parse (model_env files) False None (events_forest [suite_doc], None)
         (new_handler (model_env files) (new_result ''output.xml''))
       = parse (model_env files) True None (events stripped_doc, None)
         (new_handler (model_env files) (new_result ''output.xml''))"
proof -
  let ?env = "model_env files"
  let ?r = "new_result ''output.xml''"
  note th = omission_is_prestripping [where env = ?env and fl = None and f = "[suite_doc]"
      and err = None and h = "new_handler ?env ?r" and table = files and src = "''output.xml''"
      and n = suite_doc and r = ?r and opened = "[]"]
  have h1: "files ''output.xml'' = Inr (events_forest [suite_doc], None)"
    by (simp add: files_def events_forest_def)
  have h2: "find (\<lambda>n. tag (root n) = ''suite'') [suite_doc] = Some suite_doc"
    by (simp add: suite_doc_def suite_elem_def)
  have tf: "teardown_failures (to_suite suite_doc) = to_suite suite_doc"
    by (simp add: doc_defs tree_defs)
  have ss: "strip_suite (to_suite suite_doc) = to_suite stripped_doc"
    by (simp add: doc_defs tree_defs strip_option_def strip_test_def omit_def)
  have tf2: "teardown_failures (to_suite stripped_doc) = to_suite stripped_doc"
    by (simp add: doc_defs tree_defs)
  have sd: "events_forest (concat (map strip_omitted [suite_doc])) = events stripped_doc"
    by (simp add: events_forest_def doc_defs omit_def get_def)
  from th h1 h2 tf have c1: "fst (build ?env ''output.xml'' True None ?r [])
       = Inr (?r\<lparr>suite := to_suite suite_doc\<rparr>)"
    by simp
  from th h1 h2 ss tf have c2: "fst (build ?env ''output.xml'' False None ?r [])
       = Inr (?r\<lparr>suite := visit_suite (to_suite stripped_doc)\<rparr>)"
    by simp
  from th h1 h2 ss tf have c3: "suite_omit_free (visit_suite (to_suite stripped_doc))"
    by simp
  from th sd have c4: "parse ?env False None (events_forest [suite_doc], None) (new_handler ?env ?r)
       = parse ?env True None (events stripped_doc, None) (new_handler ?env ?r)"
    by simp
  from h1 h2 c1 c2 c3 ss c4 show ?thesis by blast
qed

text \<open>
  C6 as stated says that the tree built with omission enabled is identical to the tree
  built with omission disabled and then stripped of the omitted node kinds. For a suite
  with a teardown the first has no suite teardown, because the detail-stripping pass
  has removed it, and the second has one.
\<close>

theorem omission_posthoc_counterexample:
  "fst (build (model_env files) ''output.xml'' False None (new_result ''output.xml'') [])
     = Inr ((new_result ''output.xml'')\<lparr>suite := visit_suite (to_suite stripped_doc)\<rparr>)
   \<and> fst (build (model_env files) ''output.xml'' True None (new_result ''output.xml'') [])
     = Inr ((new_result ''output.xml'')\<lparr>suite := to_suite suite_doc\<rparr>)
   \<and> s_teardown (visit_suite (to_suite stripped_doc)) = None
   \<and> s_teardown (strip_suite (to_suite suite_doc))
       = Some (Node teardown_kw [Node (status_elem ''td'') []])
   \<and> visit_suite (to_suite stripped_doc) \<noteq> strip_suite (to_suite suite_doc)"
proof -
  have a: "fst (build (model_env files) ''output.xml'' False None (new_result ''output.xml'') [])
     = Inr ((new_result ''output.xml'')\<lparr>suite := visit_suite (to_suite stripped_doc)\<rparr>)"
    by (simp add: model_defs doc_defs tree_defs omit_keywords_def omit_step_def omit_def)
  have b: "fst (build (model_env files) ''output.xml'' True None (new_result ''output.xml'') [])
     = Inr ((new_result ''output.xml'')\<lparr>suite := to_suite suite_doc\<rparr>)"
    by (simp add: model_defs doc_defs tree_defs)
  have c: "s_teardown (visit_suite (to_suite stripped_doc)) = None"
    by (simp add: doc_defs tree_defs)
  have d: "s_teardown (strip_suite (to_suite suite_doc))
       = Some (Node teardown_kw [Node (status_elem ''td'') []])"
    by (simp add: doc_defs tree_defs strip_option_def omit_def)
  from c d have "visit_suite (to_suite stripped_doc) \<noteq> strip_suite (to_suite suite_doc)"
    by auto
  with a b c d show ?thesis by blast
qed

end
